theory Spec2Isabelle
  imports Complex_Main "HOL-Library.Word" "HOL-Library.Log_Nat"
begin

section \<open>Floating-point numbers\<close>

text \<open>
  The program computes with NumPy arrays: \<^verbatim>\<open>image * factor\<close> is a binary64 product
  (a \<^verbatim>\<open>uint8\<close> array times a Python float), \<^verbatim>\<open>hdr_image * 255\<close> a binary32 product
  (OpenCV's Mertens fusion returns \<^verbatim>\<open>float32\<close>). A floating-point datum is a finite
  rational, an infinity or NaN; every arithmetic result is rounded to the nearest
  representable number, ties to even, as IEEE 754 prescribes. The sign of zero is not
  represented: the program never divides, and both zeros clip and cast to the byte 0.
\<close>

datatype fp = Fin rat | PInf | NInf | NaN

definition pow2 :: "int \<Rightarrow> rat" where
  "pow2 e = 2 powi e"

text \<open>\<open>ilog2 q\<close> is the exponent \<open>k\<close> with \<open>2^k \<le> q < 2^(k+1)\<close>, for \<open>q > 0\<close>.\<close>

definition ilog2 :: "rat \<Rightarrow> int" where
  "ilog2 q = (case quotient_of q of (a, b) \<Rightarrow>
     (let k = bitlen a - bitlen b in if pow2 k \<le> q then k else k - 1))"

definition round_half_even :: "rat \<Rightarrow> int" where
  "round_half_even x =
     (let f = \<lfloor>x\<rfloor>; d = x - of_int f
      in if d < 1 / 2 then f
         else if 1 / 2 < d then f + 1
         else if even f then f else f + 1)"

text \<open>
  Rounding to a binary format with \<open>p\<close> significant bits, least exponent \<open>emin\<close> of the
  unit in the last place (subnormal numbers are the multiples of \<open>2^emin\<close>) and overflow
  threshold \<open>2^emax\<close>.
\<close>

definition fp_exponent :: "nat \<Rightarrow> int \<Rightarrow> rat \<Rightarrow> int" where
  "fp_exponent p emin q = max emin (ilog2 \<bar>q\<bar> - int p + 1)"

definition fp_nearest :: "nat \<Rightarrow> int \<Rightarrow> rat \<Rightarrow> rat" where
  "fp_nearest p emin q =
     (let e = fp_exponent p emin q
      in of_int (round_half_even (q / pow2 e)) * pow2 e)"

definition fp_round :: "nat \<Rightarrow> int \<Rightarrow> int \<Rightarrow> rat \<Rightarrow> fp" where
  "fp_round p emin emax q =
     (let r = fp_nearest p emin q
      in if pow2 emax \<le> r then PInf
         else if r \<le> - pow2 emax then NInf
         else Fin r)"

definition round64 :: "rat \<Rightarrow> fp" where
  "round64 = fp_round 53 (- 1074) 1024"

definition round32 :: "rat \<Rightarrow> fp" where
  "round32 = fp_round 24 (- 149) 128"

fun fp_mul :: "(rat \<Rightarrow> fp) \<Rightarrow> fp \<Rightarrow> fp \<Rightarrow> fp" where
  "fp_mul rnd NaN y = NaN"
| "fp_mul rnd x NaN = NaN"
| "fp_mul rnd (Fin a) (Fin b) = rnd (a * b)"
| "fp_mul rnd (Fin a) PInf = (if a = 0 then NaN else if 0 < a then PInf else NInf)"
| "fp_mul rnd (Fin a) NInf = (if a = 0 then NaN else if 0 < a then NInf else PInf)"
| "fp_mul rnd PInf (Fin b) = (if b = 0 then NaN else if 0 < b then PInf else NInf)"
| "fp_mul rnd NInf (Fin b) = (if b = 0 then NaN else if 0 < b then NInf else PInf)"
| "fp_mul rnd PInf PInf = PInf"
| "fp_mul rnd PInf NInf = NInf"
| "fp_mul rnd NInf PInf = NInf"
| "fp_mul rnd NInf NInf = PInf"

fun fp_add :: "(rat \<Rightarrow> fp) \<Rightarrow> fp \<Rightarrow> fp \<Rightarrow> fp" where
  "fp_add rnd NaN y = NaN"
| "fp_add rnd x NaN = NaN"
| "fp_add rnd (Fin a) (Fin b) = rnd (a + b)"
| "fp_add rnd (Fin a) PInf = PInf"
| "fp_add rnd (Fin a) NInf = NInf"
| "fp_add rnd PInf (Fin b) = PInf"
| "fp_add rnd NInf (Fin b) = NInf"
| "fp_add rnd PInf PInf = PInf"
| "fp_add rnd PInf NInf = NaN"
| "fp_add rnd NInf PInf = NaN"
| "fp_add rnd NInf NInf = NInf"

text \<open>The comparisons \<^verbatim>\<open><\<close> and \<^verbatim>\<open><=\<close> of floats: false as soon as one side is NaN.\<close>

fun fp_less :: "fp \<Rightarrow> fp \<Rightarrow> bool" where
  "fp_less NaN y = False"
| "fp_less x NaN = False"
| "fp_less (Fin a) (Fin b) = (a < b)"
| "fp_less (Fin a) PInf = True"
| "fp_less (Fin a) NInf = False"
| "fp_less PInf y = False"
| "fp_less NInf (Fin b) = True"
| "fp_less NInf PInf = True"
| "fp_less NInf NInf = False"

fun fp_le :: "fp \<Rightarrow> fp \<Rightarrow> bool" where
  "fp_le NaN y = False"
| "fp_le x NaN = False"
| "fp_le (Fin a) (Fin b) = (a \<le> b)"
| "fp_le (Fin a) PInf = True"
| "fp_le (Fin a) NInf = False"
| "fp_le PInf (Fin b) = False"
| "fp_le PInf PInf = True"
| "fp_le PInf NInf = False"
| "fp_le NInf y = True"

section \<open>NumPy arrays\<close>

text \<open>
  An image is an array of shape (rows, columns, channels): a list of rows, each a list
  of pixels, each a list of channel values. The array operations of the program are all
  elementwise.
\<close>

type_synonym u8 = "8 word"
type_synonym 'a ndarray = "'a list list list"
type_synonym image = "u8 ndarray"
type_synonym plane = "u8 list list"

definition map_ndarray :: "('a \<Rightarrow> 'b) \<Rightarrow> 'a ndarray \<Rightarrow> 'b ndarray" where
  "map_ndarray f arr = map (map (map f)) arr"

text \<open>Every value of \<^verbatim>\<open>uint8\<close> is a binary64 and a binary32 number: the conversion is exact.\<close>

definition float_of_u8 :: "u8 \<Rightarrow> fp" where
  "float_of_u8 p = Fin (of_nat (unat p))"

text \<open>\<^verbatim>\<open>image * factor\<close>: a \<^verbatim>\<open>uint8\<close> array times a Python float is a \<^verbatim>\<open>float64\<close> array.\<close>

definition np_multiply_u8 :: "image \<Rightarrow> fp \<Rightarrow> fp ndarray" where
  "np_multiply_u8 arr factor = map_ndarray (\<lambda>p. fp_mul round64 (float_of_u8 p) factor) arr"

text \<open>\<^verbatim>\<open>hdr_image * 255\<close>: a \<^verbatim>\<open>float32\<close> array times a Python int stays \<^verbatim>\<open>float32\<close>.\<close>

definition np_multiply_f32 :: "fp ndarray \<Rightarrow> int \<Rightarrow> fp ndarray" where
  "np_multiply_f32 arr k = map_ndarray (\<lambda>x. fp_mul round32 x (round32 (of_int k))) arr"

text \<open>
  \<^verbatim>\<open>np.clip\<close> is \<^verbatim>\<open>minimum(maximum(x, lo), hi)\<close> where a NaN operand \<open>x\<close> is
  passed through.
\<close>

definition np_maximum :: "fp \<Rightarrow> fp \<Rightarrow> fp" where
  "np_maximum a b = (if a = NaN then a else if fp_less b a then a else b)"

definition np_minimum :: "fp \<Rightarrow> fp \<Rightarrow> fp" where
  "np_minimum a b = (if a = NaN then a else if fp_less a b then a else b)"

definition clip_scalar :: "fp \<Rightarrow> fp \<Rightarrow> fp \<Rightarrow> fp" where
  "clip_scalar x lo hi = np_minimum (np_maximum x lo) hi"

definition np_clip :: "fp ndarray \<Rightarrow> int \<Rightarrow> int \<Rightarrow> fp ndarray" where
  "np_clip arr a_min a_max =
     map_ndarray (\<lambda>x. clip_scalar x (Fin (of_int a_min)) (Fin (of_int a_max))) arr"

text \<open>
  \<^verbatim>\<open>astype(np.uint8)\<close> is the conversion of C: the fraction is discarded (rounding
  towards zero) and the integer is reduced to its low byte. For NaN and the infinities C
  leaves the result open; NumPy raises nothing and stores whatever byte the platform
  yields, the parameter \<open>nan_u8\<close> (0 on x86-64 and on AArch64 for NaN). In this
  program the conversion is only ever applied to a clipped array, whose values are in
  \<open>[0, 255]\<close> or NaN.
\<close>

definition c_trunc :: "rat \<Rightarrow> int" where
  "c_trunc q = (if 0 \<le> q then \<lfloor>q\<rfloor> else \<lceil>q\<rceil>)"

definition cast_u8 :: "u8 \<Rightarrow> fp \<Rightarrow> u8" where
  "cast_u8 nan_u8 x = (case x of Fin q \<Rightarrow> word_of_int (c_trunc q) | _ \<Rightarrow> nan_u8)"

definition astype_uint8 :: "u8 \<Rightarrow> fp ndarray \<Rightarrow> image" where
  "astype_uint8 nan_u8 arr = map_ndarray (cast_u8 nan_u8) arr"

section \<open>Exposure synthesis\<close>

text \<open>
  The arguments have the types their docstrings give them: \<open>factor\<close> and
  \<open>exposure_step\<close> are Python floats, \<open>num_images\<close> is a Python int. (NumPy multiplies
  a \<^verbatim>\<open>uint8\<close> array by a Python int in another arithmetic; an int factor is outside the
  documented type and outside this model.)

  \<^verbatim>\<open>return np.clip(image * factor, 0, 255).astype(np.uint8)\<close>
\<close>

definition increase_exposure :: "u8 \<Rightarrow> image \<Rightarrow> fp \<Rightarrow> image" where
  "increase_exposure nan_u8 img factor =
     astype_uint8 nan_u8 (np_clip (np_multiply_u8 img factor) 0 255)"

datatype py_error =
    FileNotFoundError string
  | OverflowError
  | ValueError
  | CvError string

text \<open>
  A Python int that meets a float in \<^verbatim>\<open>i * exposure_step\<close> is converted to the
  nearest binary64 number; the conversion raises \<^verbatim>\<open>OverflowError\<close> when that number
  is not finite.
\<close>

definition float_of_int :: "int \<Rightarrow> py_error + fp" where
  "float_of_int i = (case round64 (of_int i) of Fin q \<Rightarrow> Inr (Fin q) | _ \<Rightarrow> Inl OverflowError)"

text \<open>The expression \<^verbatim>\<open>1 + i * exposure_step\<close> of the loop body.\<close>

definition exposure_factor :: "int \<Rightarrow> fp \<Rightarrow> py_error + fp" where
  "exposure_factor i exposure_step =
     (case float_of_int i of
        Inl e \<Rightarrow> Inl e
      | Inr fi \<Rightarrow> Inr (fp_add round64 (Fin 1) (fp_mul round64 fi exposure_step)))"

text \<open>
  The loop \<^verbatim>\<open>for i in range(1, num_images + 1)\<close>, over the values of \<open>i\<close> still to
  come, with the list \<open>images\<close> built so far.
\<close>

fun exposure_loop :: "u8 \<Rightarrow> image \<Rightarrow> fp \<Rightarrow> int list \<Rightarrow> image list \<Rightarrow> py_error + image list" where
  "exposure_loop nan_u8 img exposure_step [] images = Inr images"
| "exposure_loop nan_u8 img exposure_step (i # rest) images =
     (case exposure_factor i exposure_step of
        Inl e \<Rightarrow> Inl e
      | Inr factor \<Rightarrow>
          exposure_loop nan_u8 img exposure_step rest
            (images @ [increase_exposure nan_u8 img factor]))"

definition generate_exposure_images :: "u8 \<Rightarrow> image \<Rightarrow> int \<Rightarrow> fp \<Rightarrow> py_error + image list" where
  "generate_exposure_images nan_u8 img num_images exposure_step =
     exposure_loop nan_u8 img exposure_step [1..num_images] []"

section \<open>The OpenCV interface\<close>

text \<open>
  OpenCV is not part of the program: every routine the program calls is a field of the
  record \<open>cv2\<close>, a function of the arguments the program passes. A routine that can
  raise returns a sum. \<open>imread\<close> returns \<open>None\<close> for a file it cannot read or decode.
  \<open>clahe_apply clipLimit tileGridSize\<close> stands for \<^verbatim>\<open>createCLAHE(...).apply\<close> and
  \<open>merge_mertens_process\<close> for \<^verbatim>\<open>createMergeMertens().process\<close>, whose result is a
  \<^verbatim>\<open>float32\<close> array.
\<close>

datatype color_code = COLOR_BGR2LAB | COLOR_LAB2BGR

record cv2 =
  imread :: "string \<Rightarrow> image option"
  imwrite :: "string \<Rightarrow> image \<Rightarrow> py_error + bool"
  cvtColor :: "image \<Rightarrow> color_code \<Rightarrow> py_error + image"
  fastNlMeansDenoisingColored :: "image \<Rightarrow> rat \<Rightarrow> rat \<Rightarrow> nat \<Rightarrow> nat \<Rightarrow> py_error + image"
  clahe_apply :: "rat \<Rightarrow> nat \<times> nat \<Rightarrow> plane \<Rightarrow> py_error + plane"
  merge_mertens_process :: "image list \<Rightarrow> py_error + fp ndarray"

text \<open>
  \<^verbatim>\<open>cv2.split\<close> and \<^verbatim>\<open>cv2.merge\<close> only rearrange data: \<open>split\<close> returns one plane
  per channel, \<open>merge\<close> interleaves planes of one shape into a multi-channel array and
  raises on planes of different shapes.
\<close>

definition channels :: "'a ndarray \<Rightarrow> nat" where
  "channels arr = (case concat arr of [] \<Rightarrow> 0 | px # _ \<Rightarrow> length px)"

definition channel :: "nat \<Rightarrow> 'a ndarray \<Rightarrow> 'a list list" where
  "channel k arr = map (map (\<lambda>px. px ! k)) arr"

definition cv2_split :: "image \<Rightarrow> plane list" where
  "cv2_split m = map (\<lambda>k. channel k m) [0..<channels m]"

definition cv2_merge :: "plane list \<Rightarrow> py_error + image" where
  "cv2_merge mv =
     (case mv of
        [] \<Rightarrow> Inl (CvError ''merge: no input planes'')
      | m0 # rest \<Rightarrow>
          if list_all (\<lambda>m. map length m = map length m0) rest
          then Inr (map (\<lambda>y. map (\<lambda>x. map (\<lambda>m. m ! y ! x) mv) [0..<length (m0 ! y)])
                     [0..<length m0])
          else Inl (CvError ''merge: planes differ in size''))"

section \<open>The pipeline stages\<close>

definition load_image :: "cv2 \<Rightarrow> string \<Rightarrow> py_error + image" where
  "load_image lib image_path =
     (case imread lib image_path of
        None \<Rightarrow> Inl (FileNotFoundError (''Error: Could not load image from '' @ image_path))
      | Some img \<Rightarrow> Inr img)"

text \<open>
  What the program does to the outside world is a list of events: a line printed, a call
  of \<^verbatim>\<open>cv2.imwrite\<close> with its path and image.
\<close>

datatype event = Print string | ImWrite string image

definition save_image :: "cv2 \<Rightarrow> image \<Rightarrow> string \<Rightarrow> (py_error + unit) \<times> event list" where
  "save_image lib img output_path =
     (case imwrite lib output_path img of
        Inl e \<Rightarrow> (Inl e, [ImWrite output_path img])
      | Inr ok \<Rightarrow> (Inr (), [ImWrite output_path img]))"

definition noise_reduction :: "cv2 \<Rightarrow> image \<Rightarrow> py_error + image" where
  "noise_reduction lib img = fastNlMeansDenoisingColored lib img 10 10 7 21"

text \<open>The tuple assignment \<^verbatim>\<open>l, a, b = cv2.split(lab)\<close> raises unless there are three planes.\<close>

definition contrast_enhancement :: "cv2 \<Rightarrow> image \<Rightarrow> py_error + image" where
  "contrast_enhancement lib img =
     (case cvtColor lib img COLOR_BGR2LAB of
        Inl e \<Rightarrow> Inl e
      | Inr lab \<Rightarrow>
          (case cv2_split lab of
             [l, a, b] \<Rightarrow>
               (case clahe_apply lib 2 (8, 8) l of
                  Inl e \<Rightarrow> Inl e
                | Inr l_clahe \<Rightarrow>
                    (case cv2_merge [l_clahe, a, b] of
                       Inl e \<Rightarrow> Inl e
                     | Inr lab_clahe \<Rightarrow> cvtColor lib lab_clahe COLOR_LAB2BGR))
           | _ \<Rightarrow> Inl ValueError))"

section \<open>The orchestrator\<close>

text \<open>\<^verbatim>\<open>np.clip(hdr_image * 255, 0, 255).astype(np.uint8)\<close>\<close>

definition hdr_image_8bit :: "u8 \<Rightarrow> fp ndarray \<Rightarrow> image" where
  "hdr_image_8bit nan_u8 hdr_image =
     astype_uint8 nan_u8 (np_clip (np_multiply_f32 hdr_image 255) 0 255)"

text \<open>\<^verbatim>\<open>if output_path:\<close> holds for a string that is not empty; \<^verbatim>\<open>None\<close> and \<^verbatim>\<open>''\<close> fail it.\<close>

definition truthy :: "string option \<Rightarrow> bool" where
  "truthy output_path = (case output_path of None \<Rightarrow> False | Some p \<Rightarrow> p \<noteq> [])"

text \<open>The body of the \<^verbatim>\<open>try\<close> statement: its result or the exception it raises, and its events.\<close>

definition hdr_try_body ::
    "cv2 \<Rightarrow> u8 \<Rightarrow> string \<Rightarrow> int \<Rightarrow> fp \<Rightarrow> string option \<Rightarrow> (py_error + image) \<times> event list" where
  "hdr_try_body lib nan_u8 image_path num_images exposure_step output_path =
     (case load_image lib image_path of
        Inl e \<Rightarrow> (Inl e, [])
      | Inr img \<Rightarrow>
     (case generate_exposure_images nan_u8 img num_images exposure_step of
        Inl e \<Rightarrow> (Inl e, [])
      | Inr exposure_images \<Rightarrow>
     (case merge_mertens_process lib exposure_images of
        Inl e \<Rightarrow> (Inl e, [])
      | Inr hdr_image \<Rightarrow>
     (case noise_reduction lib (hdr_image_8bit nan_u8 hdr_image) of
        Inl e \<Rightarrow> (Inl e, [])
      | Inr denoised_image \<Rightarrow>
     (case contrast_enhancement lib denoised_image of
        Inl e \<Rightarrow> (Inl e, [])
      | Inr final_image \<Rightarrow>
          if truthy output_path
          then (case save_image lib final_image (the output_path) of
                  (Inl e, evs) \<Rightarrow> (Inl e, evs)
                | (Inr u, evs) \<Rightarrow> (Inr final_image, evs))
          else (Inr final_image, []))))))"

text \<open>
  \<^verbatim>\<open>except FileNotFoundError as e: print(e); return None\<close>. Any other exception leaves
  the function. The result \<open>Inr None\<close> is the return value \<^verbatim>\<open>None\<close>.
\<close>

definition hdr_night_mode ::
    "cv2 \<Rightarrow> u8 \<Rightarrow> string \<Rightarrow> int \<Rightarrow> fp \<Rightarrow> string option \<Rightarrow> (py_error + image option) \<times> event list" where
  "hdr_night_mode lib nan_u8 image_path num_images exposure_step output_path =
     (case hdr_try_body lib nan_u8 image_path num_images exposure_step output_path of
        (Inl (FileNotFoundError msg), evs) \<Rightarrow> (Inr None, evs @ [Print msg])
      | (Inl e, evs) \<Rightarrow> (Inl e, evs)
      | (Inr final_image, evs) \<Rightarrow> (Inr (Some final_image), evs))"

section \<open>Predicates on images\<close>

definition image_le :: "image \<Rightarrow> image \<Rightarrow> bool" where
  "image_le A B = list_all2 (list_all2 (list_all2 (\<le>))) A B"

definition same_shape :: "'a ndarray \<Rightarrow> 'b ndarray \<Rightarrow> bool" where
  "same_shape A B = list_all2 (list_all2 (\<lambda>p q. length p = length q)) A B"

text \<open>The spec's \<open>clamp(x, 0, 255)\<close>, truncated to an integer.\<close>

definition clamp_trunc :: "rat \<Rightarrow> int" where
  "clamp_trunc q = c_trunc (max 0 (min 255 q))"

definition image_all :: "('a \<Rightarrow> bool) \<Rightarrow> 'a ndarray \<Rightarrow> bool" where
  "image_all P A = list_all (list_all (list_all P)) A"

text \<open>
  \<open>strictly_brighter A B\<close>: every channel value of \<open>B\<close> is greater than the one of \<open>A\<close>,
  or both are saturated at 255.
\<close>

definition strictly_brighter :: "image \<Rightarrow> image \<Rightarrow> bool" where
  "strictly_brighter A B =
     list_all2 (list_all2 (list_all2 (\<lambda>a b. a < b \<or> a = 255 \<and> b = 255))) A B"

text \<open>\<open>has_shape h w c arr\<close>: the array has \<open>h\<close> rows of \<open>w\<close> pixels of \<open>c\<close> channels.\<close>

definition has_shape :: "nat \<Rightarrow> nat \<Rightarrow> nat \<Rightarrow> 'a ndarray \<Rightarrow> bool" where
  "has_shape h w c arr =
     (length arr = h \<and> list_all (\<lambda>row. length row = w \<and> list_all (\<lambda>px. length px = c) row) arr)"

section \<open>A stand-in for OpenCV\<close>

text \<open>
  A small instance of the interface, to run the pipeline on concrete inputs: one readable
  file, colour conversions and a denoiser that change nothing, a CLAHE that adds 1 to the
  lightness, a fusion that returns a fixed \<open>float32\<close> array.
\<close>

definition example_cv2 :: cv2 where
  "example_cv2 =
     \<lparr>imread = (\<lambda>p. if p = ''in.png'' then Some [[[1, 3, 250]]] else None),
      imwrite = (\<lambda>p im. Inr True),
      cvtColor = (\<lambda>im code. Inr im),
      fastNlMeansDenoisingColored = (\<lambda>im h hColor t s. Inr im),
      clahe_apply = (\<lambda>clip grid pl. Inr (map (map (\<lambda>v. v + 1)) pl)),
      merge_mertens_process = (\<lambda>ims. if ims = [] then Inl (CvError ''no images'')
         else Inr [[[Fin (1 / 2), Fin 2, Fin (- 1)], [Fin (1 / 4), PInf, NaN]]])\<rparr>"

section \<open>Properties of rounding\<close>

lemma pow2_pos [simp]: "0 < pow2 e"
  by (simp add: pow2_def)

lemma pow2_nonneg [simp]: "0 \<le> pow2 e"
  by (simp add: pow2_def)

lemma pow2_neq0 [simp]: "pow2 e \<noteq> 0"
  by (simp add: pow2_def)

lemma pow2_add: "pow2 (a + b) = pow2 a * pow2 b"
  by (simp add: pow2_def power_int_add)

lemma pow2_mono: "a \<le> b \<Longrightarrow> pow2 a \<le> pow2 b"
  by (simp add: pow2_def power_int_increasing)

lemma pow2_strict_mono: "a < b \<Longrightarrow> pow2 a < pow2 b"
  by (simp add: pow2_def power_int_strict_increasing)

lemma pow2_nat: "pow2 (int n) = 2 ^ n"
  by (simp add: pow2_def)

lemma pow2_0 [simp]: "pow2 0 = 1"
  by (simp add: pow2_def)

lemma pow2_diff: "pow2 (a - b) = pow2 a / pow2 b"
  by (simp add: pow2_def power_int_diff)

lemma pow2_less_cancel: "pow2 a < pow2 b \<Longrightarrow> a < b"
  by (metis linorder_not_less pow2_mono)

lemma bitlen_rat_bounds:
  assumes "0 < a"
  shows "pow2 (bitlen a - 1) \<le> of_int a" and "of_int a < pow2 (bitlen a)"
proof -
  from assms have b: "1 \<le> bitlen a"
    by (simp add: bitlen_alt_def)
  from bitlen_bounds [OF assms] have l: "2 ^ nat (bitlen a - 1) \<le> a" and u: "a < 2 ^ nat (bitlen a)"
    by simp_all
  have "pow2 (bitlen a - 1) = of_int (2 ^ nat (bitlen a - 1))"
    using b by (simp add: pow2_def power_int_def)
  also have "\<dots> \<le> of_int a"
    using l by (simp only: of_int_le_iff)
  finally show "pow2 (bitlen a - 1) \<le> of_int a" .
  have "(of_int a :: rat) < of_int (2 ^ nat (bitlen a))"
    using u by (simp only: of_int_less_iff)
  also have "\<dots> = pow2 (bitlen a)"
    using b by (simp add: pow2_def power_int_def)
  finally show "of_int a < pow2 (bitlen a)" .
qed

lemma ilog2_bounds:
  assumes "0 < q"
  shows "pow2 (ilog2 q) \<le> q" and "q < pow2 (ilog2 q + 1)"
proof -
  obtain a b where ab: "quotient_of q = (a, b)"
    by (cases "quotient_of q")
  then have b: "0 < b" and q: "q = of_int a / of_int b"
    by (simp_all add: quotient_of_denom_pos quotient_of_div)
  with assms have a: "0 < a"
    by (simp add: zero_less_divide_iff)
  define k where "k = bitlen a - bitlen b"
  have "q < pow2 (bitlen a) / pow2 (bitlen b - 1)"
    unfolding q using bitlen_rat_bounds [OF a] bitlen_rat_bounds [OF b] a b
    by (intro frac_less) simp_all
  also have "\<dots> = pow2 (bitlen a - (bitlen b - 1))"
    by (simp only: pow2_diff)
  also have "bitlen a - (bitlen b - 1) = k + 1"
    by (simp add: k_def)
  finally have up: "q < pow2 (k + 1)" .
  have "k - 1 = bitlen a - 1 - bitlen b"
    by (simp add: k_def)
  then have "pow2 (k - 1) = pow2 (bitlen a - 1) / pow2 (bitlen b)"
    by (simp only: pow2_diff)
  also have "\<dots> \<le> q"
    unfolding q using bitlen_rat_bounds [OF a] bitlen_rat_bounds [OF b] a b
    by (intro frac_le) simp_all
  finally have lo: "pow2 (k - 1) \<le> q" .
  have il: "ilog2 q = (if pow2 k \<le> q then k else k - 1)"
    by (simp add: ilog2_def ab k_def Let_def)
  show "pow2 (ilog2 q) \<le> q"
    using lo by (simp add: il)
  show "q < pow2 (ilog2 q + 1)"
    using up by (simp add: il)
qed

lemma ilog2_unique:
  assumes "pow2 k \<le> q" and "q < pow2 (k + 1)"
  shows "ilog2 q = k"
proof -
  have q: "0 < q"
    using assms(1) pow2_pos [of k] by linarith
  have "pow2 (ilog2 q) < pow2 (k + 1)"
    using ilog2_bounds(1) [OF q] assms(2) by linarith
  then have 1: "ilog2 q < k + 1"
    by (rule pow2_less_cancel)
  have "pow2 k < pow2 (ilog2 q + 1)"
    using ilog2_bounds(2) [OF q] assms(1) by linarith
  then have "k < ilog2 q + 1"
    by (rule pow2_less_cancel)
  with 1 show ?thesis by simp
qed

lemma ilog2_mono:
  assumes "0 < a" and "a \<le> b"
  shows "ilog2 a \<le> ilog2 b"
proof -
  have b: "0 < b" using assms by simp
  have "pow2 (ilog2 a) < pow2 (ilog2 b + 1)"
    using ilog2_bounds(1) [OF assms(1)] ilog2_bounds(2) [OF b] assms(2) by linarith
  then have "ilog2 a < ilog2 b + 1"
    by (rule pow2_less_cancel)
  then show ?thesis by simp
qed

lemma rhe_cases:
  "round_half_even x = \<lfloor>x\<rfloor> \<or> round_half_even x = \<lfloor>x\<rfloor> + 1"
  by (simp add: round_half_even_def Let_def)

lemma rhe_lower: "\<lfloor>x\<rfloor> \<le> round_half_even x"
  by (simp add: round_half_even_def Let_def)

lemma rhe_upper: "round_half_even x \<le> \<lfloor>x\<rfloor> + 1"
  by (simp add: round_half_even_def Let_def)

lemma rhe_of_int [simp]: "round_half_even (of_int m) = m"
  by (simp add: round_half_even_def Let_def)

lemma rhe_error: "\<bar>of_int (round_half_even x) - x\<bar> \<le> 1 / 2"
proof -
  have "of_int \<lfloor>x\<rfloor> \<le> x" "x < of_int \<lfloor>x\<rfloor> + 1"
    by linarith+
  then show ?thesis
    by (auto simp add: round_half_even_def Let_def abs_le_iff)
qed

lemma rhe_unique:
  assumes "\<bar>x - of_int m\<bar> < 1 / 2"
  shows "round_half_even x = m"
proof -
  have "\<bar>(of_int (round_half_even x) :: rat) - of_int m\<bar> < 1"
    using rhe_error [of x] assms by linarith
  then have "\<bar>round_half_even x - m\<bar> < 1"
    by (metis of_int_diff of_int_abs of_int_less_1_iff)
  then show ?thesis by simp
qed

lemma rhe_mono:
  assumes "x \<le> y"
  shows "round_half_even x \<le> round_half_even y"
proof (cases "\<lfloor>x\<rfloor> < \<lfloor>y\<rfloor>")
  case True
  have "round_half_even x \<le> \<lfloor>x\<rfloor> + 1"
    by (rule rhe_upper)
  also have "\<dots> \<le> \<lfloor>y\<rfloor>"
    using True by simp
  also have "\<dots> \<le> round_half_even y"
    by (rule rhe_lower)
  finally show ?thesis .
next
  case False
  with assms have eq: "\<lfloor>x\<rfloor> = \<lfloor>y\<rfloor>"
    by (simp add: floor_mono order_antisym)
  then show ?thesis
    using assms by (auto simp add: round_half_even_def Let_def)
qed

lemma fp_exponent_ge: "emin \<le> fp_exponent p emin q"
  by (simp add: fp_exponent_def)

lemma fp_exponent_mono:
  assumes "0 < a" and "a \<le> b"
  shows "fp_exponent p emin a \<le> fp_exponent p emin b"
  using ilog2_mono [of "\<bar>a\<bar>" "\<bar>b\<bar>"] assms by (simp add: fp_exponent_def)

lemma rhe_0 [simp]: "round_half_even 0 = 0"
  using rhe_of_int [of 0] by simp

lemma fp_nearest_0 [simp]: "fp_nearest p emin 0 = 0"
  by (simp add: fp_nearest_def Let_def)

lemma fp_nearest_nonneg:
  assumes "0 \<le> q"
  shows "0 \<le> fp_nearest p emin q"
proof -
  have "0 \<le> q / pow2 (fp_exponent p emin q)"
    using assms by (intro divide_nonneg_pos pow2_pos)
  then have "round_half_even 0 \<le> round_half_even (q / pow2 (fp_exponent p emin q))"
    by (rule rhe_mono)
  then have "(0::rat) \<le> of_int (round_half_even (q / pow2 (fp_exponent p emin q)))"
    by simp
  then have "0 \<le> of_int (round_half_even (q / pow2 (fp_exponent p emin q)))
      * pow2 (fp_exponent p emin q)"
    by (intro mult_nonneg_nonneg pow2_nonneg)
  then show ?thesis
    by (simp add: fp_nearest_def Let_def)
qed

lemma pow2_of_nat_int: "0 \<le> e \<Longrightarrow> pow2 e = of_int (2 ^ nat e)"
  by (simp add: pow2_def power_int_def)

text \<open>Below \<open>2^(e+p)\<close> the rounded value stays at or below \<open>2^(e+p)\<close>.\<close>

lemma fp_nearest_upper:
  assumes q: "0 < q"
  shows "fp_nearest p emin q \<le> pow2 (fp_exponent p emin q + int p)"
proof -
  define e where "e = fp_exponent p emin q"
  have "ilog2 q + 1 \<le> e + int p"
    using q by (simp add: e_def fp_exponent_def)
  then have "pow2 (ilog2 q + 1) \<le> pow2 (e + int p)"
    by (rule pow2_mono)
  with ilog2_bounds(2) [OF q] have "q < pow2 (e + int p)"
    by linarith
  then have "q / pow2 e < pow2 (int p)"
    by (simp add: pow2_add divide_less_eq mult.commute)
  then have "q / pow2 e \<le> of_int (2 ^ p)"
    by (simp add: pow2_nat)
  then have "round_half_even (q / pow2 e) \<le> round_half_even (of_int (2 ^ p))"
    by (rule rhe_mono)
  then have "round_half_even (q / pow2 e) \<le> 2 ^ p"
    by (simp only: rhe_of_int)
  then have "(of_int (round_half_even (q / pow2 e)) :: rat) \<le> of_int (2 ^ p)"
    by (simp only: of_int_le_iff)
  then have "of_int (round_half_even (q / pow2 e)) * pow2 e \<le> pow2 (int p) * pow2 e"
    by (simp add: pow2_nat)
  then show ?thesis
    by (simp add: fp_nearest_def Let_def pow2_add mult.commute flip: e_def)
qed

text \<open>A normal number rounds to at least the power of two below it.\<close>

lemma fp_nearest_lower:
  assumes q: "0 < q" and p: "0 < p" and n: "emin < fp_exponent p emin q"
  shows "pow2 (fp_exponent p emin q + int p - 1) \<le> fp_nearest p emin q"
proof -
  define e where "e = fp_exponent p emin q"
  have e: "e + int p - 1 = ilog2 q"
    using q n by (simp add: e_def fp_exponent_def)
  have "pow2 (e + int p - 1) \<le> q"
    using ilog2_bounds(1) [OF q] by (simp only: e)
  moreover have "pow2 (e + int p - 1) = pow2 (int (p - 1)) * pow2 e"
  proof -
    have "int (p - 1) + e = e + int p - 1"
      using p by (simp add: of_nat_diff)
    then show ?thesis
      by (simp only: flip: pow2_add)
  qed
  ultimately have "of_int (2 ^ (p - 1)) \<le> q / pow2 e"
    by (simp add: pow2_nat le_divide_eq)
  then have "round_half_even (of_int (2 ^ (p - 1))) \<le> round_half_even (q / pow2 e)"
    by (rule rhe_mono)
  then have "2 ^ (p - 1) \<le> round_half_even (q / pow2 e)"
    by (simp only: rhe_of_int)
  then have "(of_int (2 ^ (p - 1)) :: rat) \<le> of_int (round_half_even (q / pow2 e))"
    by (simp only: of_int_le_iff)
  then have m: "pow2 (int (p - 1)) \<le> of_int (round_half_even (q / pow2 e))"
    by (simp add: pow2_nat)
  have "int (p - 1) + e = e + int p - 1"
    using p by (simp add: of_nat_diff)
  then have "pow2 (e + int p - 1) = pow2 (int (p - 1)) * pow2 e"
    by (simp only: flip: pow2_add)
  also have "\<dots> \<le> of_int (round_half_even (q / pow2 e)) * pow2 e"
    using m by (intro mult_right_mono pow2_nonneg)
  finally show ?thesis
    by (simp add: fp_nearest_def Let_def flip: e_def)
qed

lemma fp_nearest_mono:
  assumes p: "0 < p" and a: "0 \<le> a" and ab: "a \<le> b"
  shows "fp_nearest p emin a \<le> fp_nearest p emin b"
proof (cases "a = 0")
  case True
  then show ?thesis
    using fp_nearest_nonneg [of b p emin] a ab by simp
next
  case False
  with a have a0: "0 < a" by simp
  with ab have b0: "0 < b" by simp
  have le: "fp_exponent p emin a \<le> fp_exponent p emin b"
    using a0 ab by (rule fp_exponent_mono)
  show ?thesis
  proof (cases "fp_exponent p emin a = fp_exponent p emin b")
    case True
    have "a / pow2 (fp_exponent p emin b) \<le> b / pow2 (fp_exponent p emin b)"
      using ab by (intro divide_right_mono pow2_nonneg)
    then have "round_half_even (a / pow2 (fp_exponent p emin b))
        \<le> round_half_even (b / pow2 (fp_exponent p emin b))"
      by (rule rhe_mono)
    then show ?thesis
      by (simp add: fp_nearest_def Let_def True)
  next
    case False
    with le have lt: "fp_exponent p emin a < fp_exponent p emin b"
      by simp
    have "emin \<le> fp_exponent p emin a"
      by (rule fp_exponent_ge)
    with lt have n: "emin < fp_exponent p emin b"
      by simp
    have "fp_nearest p emin a \<le> pow2 (fp_exponent p emin a + int p)"
      using a0 by (rule fp_nearest_upper)
    also have "\<dots> \<le> pow2 (fp_exponent p emin b + int p - 1)"
      using lt by (intro pow2_mono) simp
    also have "\<dots> \<le> fp_nearest p emin b"
      using b0 p n by (rule fp_nearest_lower)
    finally show ?thesis .
  qed
qed

lemma fp_nearest_eqI:
  assumes "pow2 k \<le> \<bar>q\<bar>" and "\<bar>q\<bar> < pow2 (k + 1)"
    and "\<bar>q / pow2 (max emin (k - int p + 1)) - of_int m\<bar> < 1 / 2"
  shows "fp_nearest p emin q = of_int m * pow2 (max emin (k - int p + 1))"
proof -
  have "ilog2 \<bar>q\<bar> = k"
    using assms(1,2) by (rule ilog2_unique)
  then have e: "fp_exponent p emin q = max emin (k - int p + 1)"
    by (simp add: fp_exponent_def)
  have "round_half_even (q / pow2 (max emin (k - int p + 1))) = m"
    using assms(3) by (rule rhe_unique)
  then show ?thesis
    by (simp add: fp_nearest_def Let_def e)
qed

lemma fp_nearest_exact:
  assumes m: "\<bar>m\<bar> < 2 ^ p" and e: "emin \<le> e"
  shows "fp_nearest p emin (of_int m * pow2 e) = of_int m * pow2 e"
proof (cases "m = 0")
  case True
  then show ?thesis by simp
next
  case False
  define q where "q = (of_int m :: rat) * pow2 e"
  define x where "x = fp_exponent p emin q"
  have q0: "0 < \<bar>q\<bar>"
    using False by (simp add: q_def)
  have "(of_int \<bar>m\<bar> :: rat) < of_int (2 ^ p)"
    using m by (simp only: of_int_less_iff)
  then have "\<bar>q\<bar> < pow2 (int p) * pow2 e"
    by (simp add: q_def abs_mult pow2_nat)
  then have "pow2 (ilog2 \<bar>q\<bar>) < pow2 (int p + e)"
    using ilog2_bounds(1) [OF q0] by (simp add: pow2_add)
  then have "ilog2 \<bar>q\<bar> < int p + e"
    by (rule pow2_less_cancel)
  with e have xe: "x \<le> e"
    by (simp add: x_def fp_exponent_def)
  then have px: "pow2 (e - x) = of_int (2 ^ nat (e - x))"
    by (simp add: pow2_of_nat_int)
  have "q / pow2 x = of_int m * (pow2 e / pow2 x)"
    by (simp add: q_def)
  also have "\<dots> = of_int m * of_int (2 ^ nat (e - x))"
    by (simp only: px flip: pow2_diff)
  finally have "q / pow2 x = of_int (m * 2 ^ nat (e - x))"
    by simp
  then have "round_half_even (q / pow2 x) = m * 2 ^ nat (e - x)"
    by (simp only: rhe_of_int)
  then have "of_int (round_half_even (q / pow2 x)) * pow2 x
      = of_int m * (of_int (2 ^ nat (e - x)) * pow2 x)"
    by simp
  also have "of_int (2 ^ nat (e - x)) * pow2 x = pow2 (e - x) * pow2 x"
    by (simp only: px)
  also have "\<dots> = pow2 e"
    by (simp flip: pow2_add)
  finally show ?thesis
    by (simp add: fp_nearest_def Let_def flip: x_def q_def)
qed

lemma fp_round_Fin:
  assumes "\<bar>fp_nearest p emin q\<bar> < pow2 emax"
  shows "fp_round p emin emax q = Fin (fp_nearest p emin q)"
  using assms by (simp add: fp_round_def Let_def abs_less_iff)

lemma fp_round_not_NaN [simp]: "fp_round p emin emax q \<noteq> NaN"
  by (simp add: fp_round_def Let_def)

lemma fp_round_exact:
  assumes "\<bar>m\<bar> < 2 ^ p" and "emin \<le> e" and "\<bar>of_int m * pow2 e\<bar> < pow2 emax"
  shows "fp_round p emin emax (of_int m * pow2 e) = Fin (of_int m * pow2 e)"
  using assms by (simp add: fp_round_Fin fp_nearest_exact)

text \<open>Rounding is monotone on the non-negative rationals.\<close>

lemma fp_round_mono:
  assumes "0 < p" and "0 \<le> a" and "a \<le> b"
  shows "fp_le (fp_round p emin emax a) (fp_round p emin emax b)"
proof -
  have "fp_nearest p emin a \<le> fp_nearest p emin b"
    using assms by (rule fp_nearest_mono)
  moreover have "0 \<le> fp_nearest p emin a"
    using assms(2) by (rule fp_nearest_nonneg)
  moreover have "0 < pow2 emax"
    by simp
  ultimately show ?thesis
    by (simp add: fp_round_def Let_def)
qed

lemma fp_round_nonneg:
  assumes "0 \<le> a"
  shows "fp_le (Fin 0) (fp_round p emin emax a)"
proof -
  have "0 \<le> fp_nearest p emin a"
    using assms by (rule fp_nearest_nonneg)
  moreover have "0 < pow2 emax"
    by simp
  ultimately show ?thesis
    by (simp add: fp_round_def Let_def)
qed

lemma round64_int:
  assumes "\<bar>n\<bar> < 2 ^ 53"
  shows "round64 (of_int n) = Fin (of_int n)"
proof -
  have "\<bar>of_int n :: rat\<bar> < of_int (2 ^ 53)"
    using assms by (simp only: of_int_less_iff flip: of_int_abs)
  also have "\<dots> < pow2 1024"
    by (simp add: pow2_def)
  finally have "\<bar>of_int n * pow2 0\<bar> < pow2 1024"
    by simp
  from fp_round_exact [OF assms _ this, of "- 1074"] show ?thesis
    by (simp add: round64_def)
qed

lemma round64_dyadic:
  assumes "\<bar>m\<bar> < 2 ^ 53" and "k \<le> 1074"
  shows "round64 (of_int m / 2 ^ k) = Fin (of_int m / 2 ^ k)"
proof -
  have p: "pow2 (- int k) = 1 / 2 ^ k"
    by (simp add: pow2_def power_int_minus divide_inverse)
  have "\<bar>of_int m :: rat\<bar> < of_int (2 ^ 53)"
    using assms(1) by (simp only: of_int_less_iff flip: of_int_abs)
  moreover have "\<bar>of_int m / 2 ^ k :: rat\<bar> \<le> \<bar>of_int m\<bar>"
    by (simp add: divide_le_eq mult_le_cancel_left1)
  moreover have "(of_int (2 ^ 53) :: rat) < pow2 1024"
    by (simp add: pow2_def)
  ultimately have "\<bar>of_int m * pow2 (- int k)\<bar> < pow2 1024"
    by (simp add: p)
  from fp_round_exact [OF assms(1) _ this, of "- 1074"] assms(2) show ?thesis
    by (simp add: round64_def p)
qed



section \<open>Conversion of counts to floats\<close>

lemma rhe_half:
  "round_half_even (of_int f + 1 / 2) = (if even f then f else f + 1)"
proof -
  have "\<lfloor>(of_int f :: rat) + 1 / 2\<rfloor> = f"
    by linarith
  then show ?thesis
    by (simp add: round_half_even_def Let_def)
qed

lemma nearest_below_threshold:
  "fp_nearest 53 (- 1074) (of_int (2 ^ 1024 - 2 ^ 970 - 1)) = of_int (2 ^ 53 - 1) * pow2 971"
proof -
  have "fp_nearest 53 (- 1074) (of_int (2 ^ 1024 - 2 ^ 970 - 1))
      = of_int (2 ^ 53 - 1) * pow2 (max (- 1074) (1023 - int 53 + 1))"
    by (rule fp_nearest_eqI) (simp_all add: pow2_def)
  then show ?thesis by simp
qed

lemma nearest_at_threshold:
  "fp_nearest 53 (- 1074) (of_int (2 ^ 1024 - 2 ^ 970)) = pow2 1024"
proof -
  define q :: rat where "q = of_int (2 ^ 1024 - 2 ^ 970)"
  have k: "ilog2 \<bar>q\<bar> = 1023"
    by (rule ilog2_unique) (simp_all add: q_def pow2_def)
  have e: "fp_exponent 53 (- 1074) q = 971"
    by (simp add: fp_exponent_def k)
  have "q / pow2 971 = of_int (2 ^ 53 - 1) + 1 / 2"
    by (simp add: q_def pow2_def)
  then have "round_half_even (q / pow2 971) = (if even (2 ^ 53 - 1 :: int) then 2 ^ 53 - 1 else 2 ^ 53 - 1 + 1)"
    by (simp only: rhe_half)
  then have r: "round_half_even (q / pow2 971) = 2 ^ 53"
    by simp
  have "fp_nearest 53 (- 1074) q = of_int (2 ^ 53) * pow2 971"
    by (simp only: fp_nearest_def Let_def e r)
  also have "\<dots> = pow2 1024"
    by (simp add: pow2_def)
  finally show ?thesis
    by (simp only: q_def)
qed

lemma float_of_int_ok:
  assumes "0 \<le> i" and "i < 2 ^ 1024 - 2 ^ 970"
  shows "float_of_int i = Inr (round64 (of_int i))"
    and "round64 (of_int i) = Fin (fp_nearest 53 (- 1074) (of_int i))"
proof -
  have "(of_int i :: rat) \<le> of_int (2 ^ 1024 - 2 ^ 970 - 1)"
    using assms(2) by (simp only: of_int_le_iff)
  moreover have "(0 :: rat) \<le> of_int i"
    using assms(1) by simp
  ultimately have "fp_nearest 53 (- 1074) (of_int i)
      \<le> fp_nearest 53 (- 1074) (of_int (2 ^ 1024 - 2 ^ 970 - 1))"
    by (intro fp_nearest_mono) simp_all
  also have "\<dots> < pow2 1024"
    by (simp only: nearest_below_threshold) (simp add: pow2_def)
  finally have "fp_nearest 53 (- 1074) (of_int i) < pow2 1024" .
  moreover have "0 \<le> fp_nearest 53 (- 1074) (of_int i)"
    using assms(1) by (intro fp_nearest_nonneg) simp
  ultimately show r: "round64 (of_int i) = Fin (fp_nearest 53 (- 1074) (of_int i))"
    by (simp add: round64_def fp_round_Fin)
  then show "float_of_int i = Inr (round64 (of_int i))"
    by (simp add: float_of_int_def)
qed

lemma float_of_int_overflow:
  assumes "2 ^ 1024 - 2 ^ 970 \<le> i"
  shows "float_of_int i = Inl OverflowError"
proof -
  have "(of_int (2 ^ 1024 - 2 ^ 970) :: rat) \<le> of_int i"
    using assms by (simp only: of_int_le_iff)
  moreover have "(0 :: rat) \<le> of_int (2 ^ 1024 - 2 ^ 970)"
    by simp
  ultimately have "fp_nearest 53 (- 1074) (of_int (2 ^ 1024 - 2 ^ 970))
      \<le> fp_nearest 53 (- 1074) (of_int i)"
    by (intro fp_nearest_mono) simp_all
  then have "pow2 1024 \<le> fp_nearest 53 (- 1074) (of_int i)"
    by (simp only: nearest_at_threshold)
  then have "round64 (of_int i) = PInf"
    by (simp add: round64_def fp_round_def Let_def)
  then show ?thesis
    by (simp add: float_of_int_def)
qed

lemma exposure_factor_ok:
  assumes "0 \<le> i" and "i < 2 ^ 1024 - 2 ^ 970"
  shows "exposure_factor i s
    = Inr (fp_add round64 (Fin 1) (fp_mul round64 (round64 (of_int i)) s))"
  using float_of_int_ok(1) [OF assms] by (simp add: exposure_factor_def)

lemma exposure_loop_ok:
  assumes "\<forall>i\<in>set js. 0 \<le> i \<and> i < 2 ^ 1024 - 2 ^ 970"
  shows "exposure_loop nan_u8 img s js acc
    = Inr (acc @ map (\<lambda>i. increase_exposure nan_u8 img
        (fp_add round64 (Fin 1) (fp_mul round64 (round64 (of_int i)) s))) js)"
  using assms
proof (induction js arbitrary: acc)
  case Nil
  show ?case by simp
next
  case (Cons j js)
  then have "exposure_factor j s
      = Inr (fp_add round64 (Fin 1) (fp_mul round64 (round64 (of_int j)) s))"
    by (intro exposure_factor_ok) simp_all
  with Cons show ?case
    by simp
qed

lemma map_ndarray_comp:
  "map_ndarray f (map_ndarray g arr) = map_ndarray (\<lambda>x. f (g x)) arr"
  by (simp add: map_ndarray_def comp_def)

lemma increase_exposure_pixelwise:
  "increase_exposure nan_u8 img factor
    = map_ndarray (\<lambda>p. cast_u8 nan_u8
        (clip_scalar (fp_mul round64 (float_of_u8 p) factor) (Fin 0) (Fin 255))) img"
  by (simp add: increase_exposure_def astype_uint8_def np_clip_def np_multiply_u8_def
      map_ndarray_comp)

lemma generate_exposure_images_ok:
  assumes "N < 2 ^ 1024 - 2 ^ 970"
  shows "generate_exposure_images nan_u8 img N s
    = Inr (map (\<lambda>i. increase_exposure nan_u8 img
        (fp_add round64 (Fin 1) (fp_mul round64 (round64 (of_int i)) s))) [1..N])"
  unfolding generate_exposure_images_def
  using assms by (subst exposure_loop_ok) auto

text \<open>The bound is sharp: from \<open>2^1024 - 2^970\<close> on, the loop ends in \<^verbatim>\<open>OverflowError\<close>.\<close>

lemma exposure_loop_append:
  "exposure_loop nan_u8 img s (xs @ ys) acc
    = (case exposure_loop nan_u8 img s xs acc of
         Inl e \<Rightarrow> Inl e
       | Inr acc' \<Rightarrow> exposure_loop nan_u8 img s ys acc')"
  by (induction xs arbitrary: acc) (simp_all split: sum.splits)

lemma generate_exposure_images_overflow:
  assumes "2 ^ 1024 - 2 ^ 970 \<le> N"
  shows "generate_exposure_images nan_u8 img N s = Inl OverflowError"
proof -
  define T :: int where "T = 2 ^ 1024 - 2 ^ 970"
  have T: "1 \<le> T" "T \<le> N"
    using assms by (simp_all add: T_def)
  then have split: "[1..N] = [1..T - 1] @ T # [T + 1..N]"
    by (rule upto_split3)
  have "\<forall>i\<in>set [1..T - 1]. 0 \<le> i \<and> i < 2 ^ 1024 - 2 ^ 970"
    by (auto simp add: T_def)
  then have "exposure_loop nan_u8 img s [1..T - 1] []
    = Inr ([] @ map (\<lambda>i. increase_exposure nan_u8 img
        (fp_add round64 (Fin 1) (fp_mul round64 (round64 (of_int i)) s))) [1..T - 1])"
    by (rule exposure_loop_ok)
  moreover have "exposure_factor T s = Inl OverflowError"
    using float_of_int_overflow [of T] by (simp add: exposure_factor_def T_def)
  ultimately show ?thesis
    by (simp add: generate_exposure_images_def split exposure_loop_append)
qed

lemma nth_upto_1: "1 \<le> i \<Longrightarrow> i \<le> N \<Longrightarrow> [1..N] ! nat (i - 1) = i"
  by (simp add: nth_upto)


section \<open>Evaluation at concrete numbers\<close>

lemma round64_numeral:
  "numeral n < (2 ^ 53 :: int) \<Longrightarrow> round64 (numeral n) = Fin (numeral n)"
  using round64_int [of "numeral n"] by simp

lemma round64_0: "round64 0 = Fin 0"
  using round64_int [of 0] by simp

lemma round64_1: "round64 1 = Fin 1"
  using round64_int [of 1] by simp

lemma round64_numeral_div:
  "numeral n < (2 ^ 53 :: int) \<Longrightarrow> numeral d = (2 ^ k :: rat) \<Longrightarrow> k \<le> 1074
    \<Longrightarrow> round64 (numeral n / numeral d) = Fin (numeral n / numeral d)"
  using round64_dyadic [of "numeral n" k] by simp

lemma round64_numeral_half:
  "numeral n < (2 ^ 53 :: int) \<Longrightarrow> round64 (numeral n / 2) = Fin (numeral n / 2)"
  using round64_numeral_div [of n "Num.Bit0 Num.One" 1] by simp

lemma round64_numeral_quarter:
  "numeral n < (2 ^ 53 :: int) \<Longrightarrow> round64 (numeral n / 4) = Fin (numeral n / 4)"
  using round64_numeral_div [of n "Num.Bit0 (Num.Bit0 Num.One)" 2] by simp

lemma round64_one_half: "round64 (1 / 2) = Fin (1 / 2)"
  using round64_dyadic [of 1 1] by simp

lemma round64_one_quarter: "round64 (1 / 4) = Fin (1 / 4)"
  using round64_dyadic [of 1 2] by simp

lemmas round64_eval = round64_numeral round64_0 round64_1 round64_numeral_half
  round64_numeral_quarter round64_one_half round64_one_quarter

lemma floor_rat_numeral: "\<lfloor>numeral a / numeral b :: rat\<rfloor> = numeral a div numeral b"
  using floor_divide_of_int_eq [of "numeral a" "numeral b", where ?'a = rat] by simp

lemma clip_scalar_Fin:
  "clip_scalar (Fin q) (Fin 0) (Fin 255) = Fin (max 0 (min 255 q))"
  by (simp add: clip_scalar_def np_minimum_def np_maximum_def max_def min_def)

lemma clip_scalar_other:
  "clip_scalar PInf (Fin 0) (Fin 255) = Fin 255"
  "clip_scalar NInf (Fin 0) (Fin 255) = Fin 0"
  "clip_scalar NaN (Fin 0) (Fin 255) = NaN"
  by (simp_all add: clip_scalar_def np_minimum_def np_maximum_def)


section \<open>Clipping and casting\<close>

lemma clamp_trunc_floor: "clamp_trunc q = \<lfloor>max 0 (min 255 q)\<rfloor>"
  by (simp add: clamp_trunc_def c_trunc_def)

lemma clamp_trunc_range: "0 \<le> clamp_trunc q" "clamp_trunc q \<le> 255"
proof -
  have "(0 :: rat) \<le> max 0 (min 255 q)" "max 0 (min 255 q) \<le> (255 :: rat)"
    by simp_all
  then have "\<lfloor>0 :: rat\<rfloor> \<le> \<lfloor>max 0 (min 255 q)\<rfloor>" "\<lfloor>max 0 (min 255 q)\<rfloor> \<le> \<lfloor>255 :: rat\<rfloor>"
    by (simp_all only: floor_mono)
  then show "0 \<le> clamp_trunc q" "clamp_trunc q \<le> 255"
    by (simp_all add: clamp_trunc_floor)
qed

lemma clamp_trunc_mono: "a \<le> b \<Longrightarrow> clamp_trunc a \<le> clamp_trunc b"
  unfolding clamp_trunc_floor by (intro floor_mono) (simp add: max_def min_def)

lemma uint_clamp_trunc: "uint (word_of_int (clamp_trunc q) :: u8) = clamp_trunc q"
  using clamp_trunc_range [of q] by (simp add: uint_word_of_int take_bit_int_eq_self)

lemma cast_clip_Fin:
  "cast_u8 nan_u8 (clip_scalar (Fin q) (Fin 0) (Fin 255)) = word_of_int (clamp_trunc q)"
  by (simp add: clip_scalar_Fin cast_u8_def clamp_trunc_def)

lemma cast_clip_other:
  "cast_u8 nan_u8 (clip_scalar PInf (Fin 0) (Fin 255)) = 255"
  "cast_u8 nan_u8 (clip_scalar NInf (Fin 0) (Fin 255)) = 0"
  "cast_u8 nan_u8 (clip_scalar NaN (Fin 0) (Fin 255)) = nan_u8"
  by (simp_all add: clip_scalar_other cast_u8_def c_trunc_def)

lemma u8_le_255: "(w :: u8) \<le> 255"
proof -
  have "uint w < 2 ^ 8"
    using uint_bounded [of w] by simp
  then show ?thesis
    by (simp add: word_le_def)
qed

lemma cast_clip_mono:
  assumes "fp_le x y"
  shows "cast_u8 nan_u8 (clip_scalar x (Fin 0) (Fin 255))
    \<le> cast_u8 nan_u8 (clip_scalar y (Fin 0) (Fin 255))"
proof (cases x)
  case (Fin a)
  show ?thesis
  proof (cases y)
    case (Fin b)
    with \<open>x = Fin a\<close> assms have "clamp_trunc a \<le> clamp_trunc b"
      by (simp add: clamp_trunc_mono)
    then show ?thesis
      by (simp add: Fin \<open>x = Fin a\<close> cast_clip_Fin word_le_def uint_clamp_trunc)
  next
    case PInf
    then show ?thesis by (simp add: cast_clip_other u8_le_255)
  next
    case NInf
    with \<open>x = Fin a\<close> assms show ?thesis by simp
  next
    case NaN
    with \<open>x = Fin a\<close> assms show ?thesis by simp
  qed
next
  case PInf
  with assms have "y = PInf" by (cases y) simp_all
  with PInf show ?thesis by simp
next
  case NInf
  then show ?thesis by (simp add: cast_clip_other)
next
  case NaN
  with assms show ?thesis by simp
qed

lemma round64_mono:
  "0 \<le> a \<Longrightarrow> a \<le> b \<Longrightarrow> fp_le (round64 a) (round64 b)"
  unfolding round64_def by (rule fp_round_mono) simp_all

lemma round64_nonneg: "0 \<le> a \<Longrightarrow> fp_le (Fin 0) (round64 a)"
  unfolding round64_def by (rule fp_round_nonneg)

lemma fp_le_trans: "fp_le x y \<Longrightarrow> fp_le y z \<Longrightarrow> fp_le x z"
  by (cases x; cases y; cases z) simp_all

lemma fp_le_refl: "x \<noteq> NaN \<Longrightarrow> fp_le x x"
  by (cases x) simp_all

text \<open>A pixel times a factor is monotone in the factor, from 1 upwards.\<close>

lemma pixel_exposure_mono:
  assumes "fp_le (Fin 1) f1" and "fp_le f1 f2"
  shows "cast_u8 nan_u8 (clip_scalar (fp_mul round64 (float_of_u8 p) f1) (Fin 0) (Fin 255))
    \<le> cast_u8 nan_u8 (clip_scalar (fp_mul round64 (float_of_u8 p) f2) (Fin 0) (Fin 255))"
proof -
  define v :: rat where "v = of_nat (unat p)"
  have v: "0 \<le> v"
    by (simp only: v_def of_nat_0_le_iff)
  have fv: "float_of_u8 p = Fin v"
    by (simp only: float_of_u8_def v_def)
  from assms(1) obtain a where "f1 = Fin a \<and> 1 \<le> a \<or> f1 = PInf"
    by (cases f1) simp_all
  then show ?thesis
  proof
    assume f1: "f1 = Fin a \<and> 1 \<le> a"
    from assms(2) f1 obtain b where "f2 = Fin b \<and> a \<le> b \<or> f2 = PInf"
      by (cases f2) simp_all
    then show ?thesis
    proof
      assume f2: "f2 = Fin b \<and> a \<le> b"
      have "0 \<le> v * a" "v * a \<le> v * b"
        using v f1 f2 by (simp_all add: mult_left_mono)
      then have "fp_le (round64 (v * a)) (round64 (v * b))"
        by (rule round64_mono)
      then show ?thesis
        using f1 f2 by (simp add: fv cast_clip_mono)
    next
      assume f2: "f2 = PInf"
      show ?thesis
      proof (cases "v = 0")
        case True
        then show ?thesis
          using f1 by (simp add: fv round64_0 cast_clip_Fin clamp_trunc_floor)
      next
        case False
        with v show ?thesis
          using f2 by (simp add: fv cast_clip_other u8_le_255)
      qed
    qed
  next
    assume "f1 = PInf"
    moreover from this assms(2) have "f2 = PInf"
      by (cases f2) simp_all
    ultimately show ?thesis by simp
  qed
qed

lemma map_ndarray_le:
  assumes "\<And>p. f p \<le> g p"
  shows "image_le (map_ndarray f img) (map_ndarray g img)"
  using assms
  by (simp add: image_le_def map_ndarray_def list_all2_map1 list_all2_map2 list.rel_refl)

lemma increase_exposure_le:
  assumes "fp_le (Fin 1) f1" and "fp_le f1 f2"
  shows "image_le (increase_exposure nan_u8 img f1) (increase_exposure nan_u8 img f2)"
  unfolding increase_exposure_pixelwise
  by (rule map_ndarray_le) (rule pixel_exposure_mono [OF assms])

section \<open>Monotonicity of the exposure factor\<close>

lemma round64_not_NaN [simp]: "round64 q \<noteq> NaN"
  by (simp add: round64_def)

lemma fp_le_PInf: "x \<noteq> NaN \<Longrightarrow> fp_le x PInf"
  by (cases x) simp_all

text \<open>\<open>1 + x\<close> is at least 1 and monotone in \<open>x \<ge> 0\<close>.\<close>

lemma add_one_mono:
  assumes "fp_le (Fin 0) x" and "fp_le x y"
  shows "fp_le (Fin 1) (fp_add round64 (Fin 1) x)"
    and "fp_le (fp_add round64 (Fin 1) x) (fp_add round64 (Fin 1) y)"
proof -
  from assms(1) obtain a where x: "x = Fin a \<and> 0 \<le> a \<or> x = PInf"
    by (cases x) simp_all
  have one: "fp_le (Fin 1) (round64 (1 + a))" if "0 \<le> a" for a
    using round64_mono [of 1 "1 + a"] that by (simp add: round64_1)
  from x show "fp_le (Fin 1) (fp_add round64 (Fin 1) x)"
    by (auto simp add: one)
  from x show "fp_le (fp_add round64 (Fin 1) x) (fp_add round64 (Fin 1) y)"
  proof
    assume xa: "x = Fin a \<and> 0 \<le> a"
    with assms(2) obtain b where "y = Fin b \<and> a \<le> b \<or> y = PInf"
      by (cases y) simp_all
    then show ?thesis
    proof
      assume "y = Fin b \<and> a \<le> b"
      with xa show ?thesis
        by (simp add: round64_mono)
    next
      assume "y = PInf"
      with xa show ?thesis
        by (simp add: fp_le_PInf)
    qed
  next
    assume "x = PInf"
    moreover from this assms(2) have "y = PInf"
      by (cases y) simp_all
    ultimately show ?thesis by simp
  qed
qed

text \<open>\<open>a * s\<close> is non-negative and monotone in \<open>a > 0\<close>, for a step \<open>s > 0\<close>.\<close>

lemma mul_step_mono:
  assumes "fp_less (Fin 0) s" and "0 < a" and "a \<le> b"
  shows "fp_le (Fin 0) (fp_mul round64 (Fin a) s)"
    and "fp_le (fp_mul round64 (Fin a) s) (fp_mul round64 (Fin b) s)"
proof -
  from assms(1) obtain c where s: "s = Fin c \<and> 0 < c \<or> s = PInf"
    by (cases s) simp_all
  then show "fp_le (Fin 0) (fp_mul round64 (Fin a) s)"
    using assms(2) by (auto simp add: round64_nonneg)
  from s show "fp_le (fp_mul round64 (Fin a) s) (fp_mul round64 (Fin b) s)"
  proof
    assume "s = Fin c \<and> 0 < c"
    moreover from this assms have "0 \<le> a * c" "a * c \<le> b * c"
      by simp_all
    ultimately show ?thesis
      by (simp add: round64_mono)
  next
    assume "s = PInf"
    with assms show ?thesis by simp
  qed
qed

text \<open>The conversion of a count to a float is monotone and turns \<open>i \<ge> 1\<close> into a
  float \<open>\<ge> 1\<close>.\<close>

lemma nearest_int_mono:
  assumes "1 \<le> i" and "i \<le> j"
  shows "0 < fp_nearest 53 (- 1074) (of_int i)"
    and "fp_nearest 53 (- 1074) (of_int i) \<le> fp_nearest 53 (- 1074) (of_int j)"
proof -
  have "fp_nearest 53 (- 1074) (of_int 1 * pow2 0) = of_int 1 * pow2 0"
    by (rule fp_nearest_exact) simp_all
  then have 1: "fp_nearest 53 (- 1074) 1 = 1"
    by simp
  have "fp_nearest 53 (- 1074) 1 \<le> fp_nearest 53 (- 1074) (of_int i)"
    using assms(1) by (intro fp_nearest_mono) simp_all
  with 1 show "0 < fp_nearest 53 (- 1074) (of_int i)"
    by simp
  show "fp_nearest 53 (- 1074) (of_int i) \<le> fp_nearest 53 (- 1074) (of_int j)"
    using assms by (intro fp_nearest_mono) simp_all
qed

lemma exposure_factor_mono:
  assumes s: "fp_less (Fin 0) s" and i: "1 \<le> i" "i \<le> j" and j: "j < 2 ^ 1024 - 2 ^ 970"
  shows "fp_le (Fin 1) (fp_add round64 (Fin 1) (fp_mul round64 (round64 (of_int i)) s))"
    and "fp_le (fp_add round64 (Fin 1) (fp_mul round64 (round64 (of_int i)) s))
           (fp_add round64 (Fin 1) (fp_mul round64 (round64 (of_int j)) s))"
proof -
  define a where "a = fp_nearest 53 (- 1074) (of_int i)"
  define b where "b = fp_nearest 53 (- 1074) (of_int j)"
  have ri: "round64 (of_int i) = Fin a"
    unfolding a_def using i j by (intro float_of_int_ok(2)) simp_all
  have rj: "round64 (of_int j) = Fin b"
    unfolding b_def using i j by (intro float_of_int_ok(2)) simp_all
  have ab: "0 < a" "a \<le> b"
    unfolding a_def b_def using i by (rule nearest_int_mono)+
  note m = mul_step_mono [OF s ab]
  show "fp_le (Fin 1) (fp_add round64 (Fin 1) (fp_mul round64 (round64 (of_int i)) s))"
    unfolding ri by (rule add_one_mono(1) [OF m])
  show "fp_le (fp_add round64 (Fin 1) (fp_mul round64 (round64 (of_int i)) s))
           (fp_add round64 (Fin 1) (fp_mul round64 (round64 (of_int j)) s))"
    unfolding ri rj by (rule add_one_mono(2) [OF m])
qed

section \<open>The exposure functions at concrete inputs\<close>

lemma cast_clip_cases:
  "cast_u8 nan_u8 (clip_scalar x (Fin 0) (Fin 255))
    = (case x of Fin q \<Rightarrow> word_of_int (clamp_trunc q) | PInf \<Rightarrow> 255 | NInf \<Rightarrow> 0 | NaN \<Rightarrow> nan_u8)"
  by (cases x) (simp_all add: cast_clip_Fin cast_clip_other)

lemma same_shape_map: "same_shape (map_ndarray f A) A"
  by (simp add: same_shape_def map_ndarray_def list_all2_map1 list.rel_refl)

lemma image_all_u8: "image_all (\<lambda>v :: u8. 0 \<le> uint v \<and> uint v \<le> 255) A"
proof -
  have "0 \<le> uint v \<and> uint v \<le> 255" for v :: u8
    using u8_le_255 [of v] by (simp add: word_le_def)
  then show ?thesis
    by (simp add: image_all_def list_all_iff)
qed

lemmas eval_simps = increase_exposure_pixelwise map_ndarray_def float_of_u8_def round64_eval
  clip_scalar_Fin cast_u8_def c_trunc_def floor_rat_numeral

lemma gen_example:
  "generate_exposure_images 0 [[[1, 3, 250]]] 2 (Fin (1 / 4))
    = Inr [[[[1, 3, 255]]], [[[1, 4, 255]]]]"
  by (simp add: generate_exposure_images_ok eval_simps upto_rec1)

text \<open>
  Rounding is visible in the result: the product of 10 and the double nearest to 1.7 is
  17 in the program, while the exact product of the two numbers is below 17.
\<close>

lemma product_is_rounded:
  "increase_exposure 0 [[[10]]] (Fin (7656119366529843 / 2 ^ 52)) = [[[17]]]"
  "\<lfloor>10 * (7656119366529843 / 2 ^ 52 :: rat)\<rfloor> = 16"
proof -
  have "fp_nearest 53 (- 1074) (10 * (7656119366529843 / 2 ^ 52))
      = of_int 4785074604081152 * pow2 (max (- 1074) (4 - int 53 + 1))"
    by (rule fp_nearest_eqI) (simp_all add: pow2_def)
  then have "fp_nearest 53 (- 1074) (10 * (7656119366529843 / 2 ^ 52)) = 17"
    by (simp add: pow2_def)
  then have "round64 (10 * (7656119366529843 / 2 ^ 52)) = Fin 17"
    by (simp add: round64_def fp_round_def Let_def pow2_def)
  then show "increase_exposure 0 [[[10]]] (Fin (7656119366529843 / 2 ^ 52)) = [[[17]]]"
    by (simp add: increase_exposure_pixelwise map_ndarray_def float_of_u8_def clip_scalar_Fin
        cast_u8_def c_trunc_def)
  show "\<lfloor>10 * (7656119366529843 / 2 ^ 52 :: rat)\<rfloor> = 16"
    by (simp add: floor_rat_numeral)
qed

text \<open>Factors below 1, negative, infinite and NaN, on a platform whose invalid cast yields 7.\<close>

lemma increase_exposure_examples:
  "increase_exposure 7 [[[0, 10, 200]]] (Fin (1 / 2)) = [[[0, 5, 100]]]"
  "increase_exposure 7 [[[0, 10, 200]]] (Fin (- 3 / 2)) = [[[0, 0, 0]]]"
  "increase_exposure 7 [[[0, 10, 200]]] PInf = [[[7, 255, 255]]]"
  "increase_exposure 7 [[[0, 10, 200]]] NInf = [[[7, 0, 0]]]"
  "increase_exposure 7 [[[0, 10, 200]]] NaN = [[[7, 7, 7]]]"
proof -
  have r: "round64 (- 15) = Fin (- 15)" "round64 (- 300) = Fin (- 300)"
    using round64_int [of "- 15"] round64_int [of "- 300"] by simp_all
  show "increase_exposure 7 [[[0, 10, 200]]] (Fin (1 / 2)) = [[[0, 5, 100]]]"
    by (simp add: eval_simps)
  show "increase_exposure 7 [[[0, 10, 200]]] (Fin (- 3 / 2)) = [[[0, 0, 0]]]"
    by (simp add: eval_simps r)
  show "increase_exposure 7 [[[0, 10, 200]]] PInf = [[[7, 255, 255]]]"
    "increase_exposure 7 [[[0, 10, 200]]] NInf = [[[7, 0, 0]]]"
    "increase_exposure 7 [[[0, 10, 200]]] NaN = [[[7, 7, 7]]]"
    by (simp_all add: increase_exposure_pixelwise map_ndarray_def float_of_u8_def
        cast_clip_other)
qed

section \<open>Exposure synthesis: the claims\<close>

text \<open>C9: with \<open>num_images = 0\<close> the loop body never runs: the result is the empty list,
  whatever the image and the step (a NaN step included), and no error is raised.\<close>

theorem generate_exposure_images_zero:
  "generate_exposure_images nan_u8 img 0 exposure_step = Inr []"
  by (simp add: generate_exposure_images_def)

text \<open>
  C1: a count \<open>N\<close> that Python can convert to a float (\<open>N < 2^1024 - 2^970\<close>, see
  \<open>generate_exposure_images_overflow\<close>) yields \<open>N\<close> images, and image \<open>i\<close> (counted from
  1) is the source with every channel value \<open>p\<close> replaced by \<open>clamp(q, 0, 255)\<close> truncated
  to an integer, where \<open>q\<close> is the product \<open>p * (1 + i * s)\<close>. The product and the sum are
  the binary64 operations of the program; a product that is infinite saturates, and a
  NaN product (0 times infinity) becomes the platform's byte. The statement holds for
  every step \<open>s\<close>, in particular for \<open>s > 0\<close>, and for every count below the bound, in
  particular for \<open>N \<ge> 1\<close>.
\<close>

theorem generate_exposure_images_images:
  assumes "N < 2 ^ 1024 - 2 ^ 970"
  shows "\<exists>images. generate_exposure_images nan_u8 img N s = Inr images
    \<and> length images = nat N
    \<and> (\<forall>i\<in>{1..N}. images ! nat (i - 1)
          = map_ndarray (\<lambda>p.
              case fp_mul round64 (float_of_u8 p)
                     (fp_add round64 (Fin 1) (fp_mul round64 (round64 (of_int i)) s)) of
                Fin q \<Rightarrow> word_of_int (clamp_trunc q)
              | PInf \<Rightarrow> 255 | NInf \<Rightarrow> 0 | NaN \<Rightarrow> nan_u8) img)"
  using assms
  by (simp add: generate_exposure_images_ok nth_upto_1 increase_exposure_pixelwise
      cast_clip_cases)

theorem generate_exposure_images_images_witness:
  "(2 :: int) < 2 ^ 1024 - 2 ^ 970
    \<and> generate_exposure_images 0 [[[1, 3, 250]]] 2 (Fin (1 / 4))
        = Inr [[[[1, 3, 255]]], [[[1, 4, 255]]]]
    \<and> ([[[1, 3, 255]]] :: image)
        = map_ndarray (\<lambda>p.
              case fp_mul round64 (float_of_u8 p)
                     (fp_add round64 (Fin 1) (fp_mul round64 (round64 (of_int 1)) (Fin (1 / 4)))) of
                Fin q \<Rightarrow> word_of_int (clamp_trunc q)
              | PInf \<Rightarrow> 255 | NInf \<Rightarrow> 0 | NaN \<Rightarrow> 0) [[[1, 3, 250]]]"
proof -
  have h: "(2 :: int) < 2 ^ 1024 - 2 ^ 970"
    by simp
  from generate_exposure_images_images [OF h, of 0 "[[[1, 3, 250]]]" "Fin (1 / 4)"]
  obtain images where g: "generate_exposure_images 0 [[[1, 3, 250]]] 2 (Fin (1 / 4)) = Inr images"
    and e: "\<forall>i\<in>{1..2}. images ! nat (i - 1)
        = map_ndarray (\<lambda>p.
              case fp_mul round64 (float_of_u8 p)
                     (fp_add round64 (Fin 1) (fp_mul round64 (round64 (of_int i)) (Fin (1 / 4)))) of
                Fin q \<Rightarrow> word_of_int (clamp_trunc q)
              | PInf \<Rightarrow> 255 | NInf \<Rightarrow> 0 | NaN \<Rightarrow> 0) [[[1, 3, 250]]]"
    by auto
  from g have i: "images = [[[[1, 3, 255]]], [[[1, 4, 255]]]]"
    by (simp add: gen_example)
  have "(1 :: int) \<in> {1..2}"
    by simp
  with e have "images ! nat (1 - 1)
        = map_ndarray (\<lambda>p.
              case fp_mul round64 (float_of_u8 p)
                     (fp_add round64 (Fin 1) (fp_mul round64 (round64 (of_int 1)) (Fin (1 / 4)))) of
                Fin q \<Rightarrow> word_of_int (clamp_trunc q)
              | PInf \<Rightarrow> 255 | NInf \<Rightarrow> 0 | NaN \<Rightarrow> 0) [[[1, 3, 250]]]"
    by (rule bspec)
  moreover have "images ! nat (1 - 1) = [[[1, 3, 255]]]"
    by (simp add: i)
  ultimately have "([[[1, 3, 255]]] :: image)
        = map_ndarray (\<lambda>p.
              case fp_mul round64 (float_of_u8 p)
                     (fp_add round64 (Fin 1) (fp_mul round64 (round64 (of_int 1)) (Fin (1 / 4)))) of
                Fin q \<Rightarrow> word_of_int (clamp_trunc q)
              | PInf \<Rightarrow> 255 | NInf \<Rightarrow> 0 | NaN \<Rightarrow> 0) [[[1, 3, 250]]]"
    by (simp only:)
  with h gen_example show ?thesis
    by (simp only: simp_thms)
qed

text \<open>
  C10: whatever the factor (below 1, negative, infinite or NaN), the result has the shape
  of the source, and a channel value \<open>p\<close> whose product with the factor is the finite
  number \<open>q\<close> becomes the integer \<open>clamp(q, 0, 255)\<close> truncated, which lies in
  \<open>[0, 255]\<close> and is stored in the byte as it is: the cast never wraps around. An
  infinite product saturates to 255 or 0; a NaN product becomes the platform's byte.
\<close>

theorem increase_exposure_clipped:
  "increase_exposure nan_u8 img factor
    = map_ndarray (\<lambda>p. case fp_mul round64 (float_of_u8 p) factor of
          Fin q \<Rightarrow> word_of_int (clamp_trunc q) | PInf \<Rightarrow> 255 | NInf \<Rightarrow> 0 | NaN \<Rightarrow> nan_u8) img
   \<and> uint (word_of_int (clamp_trunc q) :: u8) = clamp_trunc q
   \<and> 0 \<le> clamp_trunc q \<and> clamp_trunc q \<le> 255
   \<and> same_shape (increase_exposure nan_u8 img factor) img
   \<and> image_all (\<lambda>v. 0 \<le> uint v \<and> uint v \<le> 255) (increase_exposure nan_u8 img factor)"
proof (intro conjI)
  show "increase_exposure nan_u8 img factor
    = map_ndarray (\<lambda>p. case fp_mul round64 (float_of_u8 p) factor of
          Fin q \<Rightarrow> word_of_int (clamp_trunc q) | PInf \<Rightarrow> 255 | NInf \<Rightarrow> 0 | NaN \<Rightarrow> nan_u8) img"
    by (simp add: increase_exposure_pixelwise cast_clip_cases)
  show "uint (word_of_int (clamp_trunc q) :: u8) = clamp_trunc q"
    by (rule uint_clamp_trunc)
  show "0 \<le> clamp_trunc q" "clamp_trunc q \<le> 255"
    by (rule clamp_trunc_range)+
  show "same_shape (increase_exposure nan_u8 img factor) img"
    unfolding increase_exposure_pixelwise by (rule same_shape_map)
  show "image_all (\<lambda>v. 0 \<le> uint v \<and> uint v \<le> 255) (increase_exposure nan_u8 img factor)"
    by (rule image_all_u8)
qed

text \<open>
  C3: for factors \<open>1 \<le> f1 \<le> f2\<close> the exposure with \<open>f2\<close> is channel by channel at least
  the exposure with \<open>f1\<close>, and every channel value of both lies in \<open>[0, 255]\<close>.
\<close>

theorem increase_exposure_monotone:
  assumes "fp_le (Fin 1) f1" and "fp_le f1 f2"
  shows "image_le (increase_exposure nan_u8 img f1) (increase_exposure nan_u8 img f2)
    \<and> image_all (\<lambda>v. 0 \<le> uint v \<and> uint v \<le> 255) (increase_exposure nan_u8 img f1)
    \<and> image_all (\<lambda>v. 0 \<le> uint v \<and> uint v \<le> 255) (increase_exposure nan_u8 img f2)"
  using assms by (intro conjI increase_exposure_le image_all_u8)

theorem increase_exposure_monotone_witness:
  "fp_le (Fin 1) (Fin (5 / 4)) \<and> fp_le (Fin (5 / 4)) (Fin (3 / 2))
    \<and> increase_exposure 0 [[[1, 3, 250]]] (Fin (5 / 4)) = [[[1, 3, 255]]]
    \<and> increase_exposure 0 [[[1, 3, 250]]] (Fin (3 / 2)) = [[[1, 4, 255]]]
    \<and> image_le [[[1, 3, 255]]] [[[1, 4, 255]]]"
proof -
  have h: "fp_le (Fin 1) (Fin (5 / 4))" "fp_le (Fin (5 / 4)) (Fin (3 / 2))"
    by simp_all
  have a: "increase_exposure 0 [[[1, 3, 250]]] (Fin (5 / 4)) = [[[1, 3, 255]]]"
    by (simp add: eval_simps)
  have b: "increase_exposure 0 [[[1, 3, 250]]] (Fin (3 / 2)) = [[[1, 4, 255]]]"
    by (simp add: eval_simps)
  from increase_exposure_monotone [OF h, of 0 "[[[1, 3, 250]]]"]
  have "image_le [[[1, 3, 255]]] [[[1, 4, 255]]]"
    by (simp only: a b)
  with h a b show ?thesis
    by simp
qed

text \<open>
  C4, as the claim states it, fails: with step 0.25 a channel value 1 is 1 in the first
  image (1.25 truncated) and 1 in the second (1.5 truncated), neither greater nor
  saturated.
\<close>

theorem exposure_images_strict_counterexample:
  "generate_exposure_images 0 [[[1, 3, 250]]] 2 (Fin (1 / 4))
      = Inr [[[[1, 3, 255]]], [[[1, 4, 255]]]]
    \<and> \<not> strictly_brighter [[[1, 3, 255]]] [[[1, 4, 255]]]"
  by (simp add: gen_example strictly_brighter_def)

text \<open>
  C4, amended: for a step \<open>s > 0\<close> and a count \<open>N\<close> that Python can convert to a float,
  there are \<open>N\<close> images and each image from the second on is channel by channel at least
  the image before it.
\<close>

theorem exposure_images_nondecreasing:
  assumes "N < 2 ^ 1024 - 2 ^ 970" and "fp_less (Fin 0) s"
  shows "\<exists>images. generate_exposure_images nan_u8 img N s = Inr images
    \<and> length images = nat N
    \<and> (\<forall>i\<in>{2..N}. image_le (images ! nat (i - 2)) (images ! nat (i - 1)))"
proof -
  let ?f = "\<lambda>i. fp_add round64 (Fin 1) (fp_mul round64 (round64 (of_int i)) s)"
  have "image_le (increase_exposure nan_u8 img (?f (i - 1))) (increase_exposure nan_u8 img (?f i))"
    if "2 \<le> i" "i \<le> N" for i
  proof -
    have "1 \<le> i - 1" "i - 1 \<le> i" "i < 2 ^ 1024 - 2 ^ 970"
      using that assms(1) by simp_all
    from exposure_factor_mono [OF assms(2) this] show ?thesis
      by (rule increase_exposure_le)
  qed
  moreover have "[1..N] ! nat (i - 2) = i - 1" if "2 \<le> i" "i \<le> N" for i
    using that by (simp add: nth_upto)
  ultimately show ?thesis
    using assms(1) by (simp add: generate_exposure_images_ok nth_upto_1)
qed

theorem exposure_images_nondecreasing_witness:
  "(2 :: int) < 2 ^ 1024 - 2 ^ 970 \<and> fp_less (Fin 0) (Fin (1 / 4))
    \<and> generate_exposure_images 0 [[[1, 3, 250]]] 2 (Fin (1 / 4))
        = Inr [[[[1, 3, 255]]], [[[1, 4, 255]]]]
    \<and> image_le [[[1, 3, 255]]] [[[1, 4, 255]]]"
proof -
  have h: "(2 :: int) < 2 ^ 1024 - 2 ^ 970" "fp_less (Fin 0) (Fin (1 / 4))"
    by simp_all
  from exposure_images_nondecreasing [OF h, of 0 "[[[1, 3, 250]]]"]
  have "image_le ([[[[1, 3, 255]]], [[[1, 4, 255]]]] ! nat (2 - 2))
      ([[[[1, 3, 255]]], [[[1, 4, 255]]]] ! nat (2 - 1))"
    by (simp add: gen_example)
  then have "image_le [[[1, 3, 255]]] [[[1, 4, 255]]]"
    by simp
  with h show ?thesis
    by (simp add: gen_example)
qed


section \<open>Tone mapping\<close>

lemma round32_exact:
  assumes "\<bar>m\<bar> < 2 ^ 24" and "k \<le> 149"
  shows "round32 (of_int m / 2 ^ k) = Fin (of_int m / 2 ^ k)"
proof -
  have p: "pow2 (- int k) = 1 / 2 ^ k"
    by (simp add: pow2_def power_int_minus divide_inverse)
  have "\<bar>of_int m :: rat\<bar> < of_int (2 ^ 24)"
    using assms(1) by (simp only: of_int_less_iff flip: of_int_abs)
  moreover have "\<bar>of_int m / 2 ^ k :: rat\<bar> \<le> \<bar>of_int m\<bar>"
    by (simp add: divide_le_eq mult_le_cancel_left1)
  moreover have "(of_int (2 ^ 24) :: rat) < pow2 128"
    by (simp add: pow2_def)
  ultimately have "\<bar>of_int m * pow2 (- int k)\<bar> < pow2 128"
    by (simp add: p)
  from fp_round_exact [OF assms(1) _ this, of "- 149"] assms(2) show ?thesis
    by (simp add: round32_def p)
qed

lemma round32_255: "round32 255 = Fin 255"
  using round32_exact [of 255 0] by simp

lemma hdr_image_8bit_pixelwise:
  "hdr_image_8bit nan_u8 hdr_image
    = map_ndarray (\<lambda>x. cast_u8 nan_u8 (clip_scalar (fp_mul round32 x (Fin 255)) (Fin 0) (Fin 255)))
        hdr_image"
  by (simp add: hdr_image_8bit_def astype_uint8_def np_clip_def np_multiply_f32_def
      map_ndarray_comp round32_255)

lemma hdr_image_8bit_example:
  "hdr_image_8bit 0 [[[Fin (1 / 2), Fin 2, Fin (- 1)], [Fin (1 / 4), PInf, NaN]]]
    = [[[127, 255, 0], [63, 255, 0]]]"
proof -
  have "round32 (255 / 2) = Fin (255 / 2)" "round32 510 = Fin 510" "round32 (- 255) = Fin (- 255)"
    "round32 (255 / 4) = Fin (255 / 4)"
    using round32_exact [of 255 1] round32_exact [of 510 0] round32_exact [of "- 255" 0]
      round32_exact [of 255 2]
    by simp_all
  then show ?thesis
    by (simp add: hdr_image_8bit_pixelwise map_ndarray_def clip_scalar_Fin clip_scalar_other
        cast_u8_def c_trunc_def floor_rat_numeral)
qed

text \<open>
  C5: the 8-bit image is the fused \<open>float32\<close> array with every value multiplied by 255
  (a binary32 product), clamped to \<open>[0, 255]\<close> and truncated; the integer is in
  \<open>[0, 255]\<close> and the cast stores it as it is. A product that is infinite saturates, a NaN
  becomes the platform's byte.
\<close>

theorem hdr_image_8bit_clamped:
  "hdr_image_8bit nan_u8 hdr_image
    = map_ndarray (\<lambda>x. case fp_mul round32 x (Fin 255) of
          Fin q \<Rightarrow> word_of_int (clamp_trunc q) | PInf \<Rightarrow> 255 | NInf \<Rightarrow> 0 | NaN \<Rightarrow> nan_u8)
        hdr_image
   \<and> fp_mul round32 (Fin a) (Fin 255) = round32 (a * 255)
   \<and> uint (word_of_int (clamp_trunc q) :: u8) = clamp_trunc q
   \<and> 0 \<le> clamp_trunc q \<and> clamp_trunc q \<le> 255"
  by (simp add: hdr_image_8bit_pixelwise cast_clip_cases uint_clamp_trunc clamp_trunc_range)

section \<open>Contrast enhancement\<close>

lemma has_shape_channels:
  assumes "has_shape h w c arr" and "0 < h" and "0 < w"
  shows "channels arr = c"
proof -
  from assms obtain row rows where arr: "arr = row # rows"
    by (cases arr) (simp_all add: has_shape_def)
  with assms have row: "length row = w" "list_all (\<lambda>px. length px = c) row"
    by (simp_all add: has_shape_def)
  with assms(3) obtain px pxs where "row = px # pxs"
    by (cases row) simp_all
  with row arr show ?thesis
    by (simp add: channels_def)
qed

lemma map_length_channel: "map length (channel k arr) = map length arr"
  by (simp add: channel_def)

lemma rebuild_plane:
  assumes "map length l = map length a"
  shows "map (\<lambda>y. map (\<lambda>x. a ! y ! x) [0..<length (l ! y)]) [0..<length l] = a"
proof -
  have len: "length l = length a"
    using assms by (rule map_eq_imp_length_eq)
  have row: "length (l ! y) = length (a ! y)" if "y < length a" for y
    using that len assms by (metis nth_map)
  have "map (\<lambda>y. map (\<lambda>x. a ! y ! x) [0..<length (l ! y)]) [0..<length l]
      = map (\<lambda>y. a ! y) [0..<length a]"
    unfolding len by (rule map_cong) (simp_all add: row map_nth)
  then show ?thesis
    by (simp add: map_nth)
qed

lemma cv2_merge_3:
  assumes "map length l = map length a" and "map length b = map length a"
  shows "\<exists>m. cv2_merge [l, a, b] = Inr m
    \<and> channel 0 m = l \<and> channel 1 m = a \<and> channel 2 m = b"
proof -
  let ?m = "map (\<lambda>y. map (\<lambda>x. [l ! y ! x, a ! y ! x, b ! y ! x]) [0..<length (l ! y)])
    [0..<length l]"
  have m: "cv2_merge [l, a, b] = Inr ?m"
    using assms by (simp add: cv2_merge_def)
  have "channel 0 ?m = map (\<lambda>y. map (\<lambda>x. l ! y ! x) [0..<length (l ! y)]) [0..<length l]"
    "channel 1 ?m = map (\<lambda>y. map (\<lambda>x. a ! y ! x) [0..<length (l ! y)]) [0..<length l]"
    "channel 2 ?m = map (\<lambda>y. map (\<lambda>x. b ! y ! x) [0..<length (l ! y)]) [0..<length l]"
    by (simp_all add: channel_def comp_def)
  moreover have "map length l = map length b"
    using assms by simp
  ultimately have "channel 0 ?m = l" "channel 1 ?m = a" "channel 2 ?m = b"
    using assms(1) by (simp_all add: rebuild_plane)
  with m show ?thesis
    by blast
qed

lemma contrast_enhancement_example:
  "contrast_enhancement example_cv2 [[[127, 255, 0], [63, 255, 0]]]
    = Inr [[[128, 255, 0], [64, 255, 0]]]"
proof -
  have "[0..<3] = [0, 1, 2]"
    by (simp add: upt_rec)
  then show ?thesis
    by (simp add: contrast_enhancement_def example_cv2_def cv2_split_def channels_def
        channel_def cv2_merge_def upt_rec)
qed

lemma hdr_night_mode_example:
  "hdr_night_mode example_cv2 0 ''in.png'' 2 (Fin (1 / 4)) None
    = (Inr (Some [[[128, 255, 0], [64, 255, 0]]]), [])"
proof -
  have "imread example_cv2 ''in.png'' = Some [[[1, 3, 250]]]"
    "merge_mertens_process example_cv2 [[[[1, 3, 255]]], [[[1, 4, 255]]]]
      = Inr [[[Fin (1 / 2), Fin 2, Fin (- 1)], [Fin (1 / 4), PInf, NaN]]]"
    "noise_reduction example_cv2 [[[127, 255, 0], [63, 255, 0]]]
      = Inr [[[127, 255, 0], [63, 255, 0]]]"
    by (simp_all add: example_cv2_def noise_reduction_def)
  then show ?thesis
    by (simp add: hdr_night_mode_def hdr_try_body_def load_image_def gen_example
        hdr_image_8bit_example contrast_enhancement_example truthy_def)
qed

text \<open>
  C6: when the colour conversion returns a three-channel LAB image and CLAHE returns a
  plane of the shape of the lightness plane, the image handed to the conversion back to
  BGR is the merge of the equalised lightness with the two chrominance planes of the
  LAB image: its channels 1 and 2 are those of the LAB image, its channel 0 is the output
  of CLAHE.
\<close>

theorem contrast_enhancement_chrominance:
  assumes "cvtColor lib img COLOR_BGR2LAB = Inr lab"
    and "has_shape h w 3 lab" and "0 < h" and "0 < w"
    and "clahe_apply lib 2 (8, 8) (channel 0 lab) = Inr l_clahe"
    and "map length l_clahe = map length (channel 0 lab)"
  shows "\<exists>lab_clahe.
      cv2_merge [l_clahe, channel 1 lab, channel 2 lab] = Inr lab_clahe
    \<and> contrast_enhancement lib img = cvtColor lib lab_clahe COLOR_LAB2BGR
    \<and> channel 0 lab_clahe = l_clahe
    \<and> channel 1 lab_clahe = channel 1 lab
    \<and> channel 2 lab_clahe = channel 2 lab"
proof -
  have "channels lab = 3"
    using assms(2-4) by (rule has_shape_channels)
  moreover have "[0..<3] = [0, 1, 2]"
    by (simp add: upt_rec)
  ultimately have split: "cv2_split lab = [channel 0 lab, channel 1 lab, channel 2 lab]"
    by (simp add: cv2_split_def)
  have "map length l_clahe = map length (channel 1 lab)"
    "map length (channel 2 lab) = map length (channel 1 lab)"
    using assms(6) by (simp_all add: map_length_channel)
  from cv2_merge_3 [OF this] obtain m where
    m: "cv2_merge [l_clahe, channel 1 lab, channel 2 lab] = Inr m"
    "channel 0 m = l_clahe" "channel 1 m = channel 1 lab" "channel 2 m = channel 2 lab"
    by blast
  have "contrast_enhancement lib img = cvtColor lib m COLOR_LAB2BGR"
    by (simp only: contrast_enhancement_def assms(1,5) split m(1) sum.case list.case)
  with m show ?thesis
    by blast
qed

theorem contrast_enhancement_chrominance_witness:
  "cvtColor example_cv2 [[[127, 255, 0], [63, 255, 0]]] COLOR_BGR2LAB
      = Inr [[[127, 255, 0], [63, 255, 0]]]
    \<and> has_shape 1 2 3 [[[127, 255, 0], [63, 255, 0 :: u8]]]
    \<and> clahe_apply example_cv2 2 (8, 8) (channel 0 [[[127, 255, 0], [63, 255, 0]]]) = Inr [[128, 64]]
    \<and> contrast_enhancement example_cv2 [[[127, 255, 0], [63, 255, 0]]]
        = cvtColor example_cv2 [[[128, 255, 0], [64, 255, 0]]] COLOR_LAB2BGR
    \<and> channel 1 [[[128, 255, 0], [64, 255, 0 :: u8]]] = channel 1 [[[127, 255, 0], [63, 255, 0]]]
    \<and> channel 2 [[[128, 255, 0], [64, 255, 0 :: u8]]] = channel 2 [[[127, 255, 0], [63, 255, 0]]]"
proof -
  let ?lab = "[[[127, 255, 0], [63, 255, 0 :: u8]]]"
  have h: "cvtColor example_cv2 ?lab COLOR_BGR2LAB = Inr ?lab" "has_shape 1 2 3 ?lab"
    "(0 :: nat) < 1" "(0 :: nat) < 2"
    "clahe_apply example_cv2 2 (8, 8) (channel 0 ?lab) = Inr [[128, 64]]"
    "map length [[128, 64 :: u8]] = map length (channel 0 ?lab)"
    by (simp_all add: example_cv2_def has_shape_def channel_def)
  from contrast_enhancement_chrominance [OF h]
  obtain lab_clahe where m: "cv2_merge [[[128, 64]], channel 1 ?lab, channel 2 ?lab] = Inr lab_clahe"
    and c: "contrast_enhancement example_cv2 ?lab = cvtColor example_cv2 lab_clahe COLOR_LAB2BGR"
    and "channel 1 lab_clahe = channel 1 ?lab" "channel 2 lab_clahe = channel 2 ?lab"
    by blast
  from m have "lab_clahe = [[[128, 255, 0], [64, 255, 0]]]"
    by (simp add: cv2_merge_def channel_def upt_rec)
  with c h show ?thesis
    by (simp add: channel_def)
qed

section \<open>The orchestrator: the claims\<close>

text \<open>
  C2: when \<open>imread\<close> cannot load the file, \<open>hdr_night_mode\<close> raises nothing and returns
  \<open>None\<close>; its only event is the printed error message, so nothing is written,
  whatever the output path.
\<close>

theorem hdr_night_mode_load_failure:
  assumes "imread lib image_path = None"
  shows "hdr_night_mode lib nan_u8 image_path num_images exposure_step output_path
    = (Inr None, [Print (''Error: Could not load image from '' @ image_path)])"
  using assms by (simp add: hdr_night_mode_def hdr_try_body_def load_image_def)

theorem hdr_night_mode_load_failure_witness:
  "imread example_cv2 ''missing.png'' = None
    \<and> hdr_night_mode example_cv2 0 ''missing.png'' 30 (Fin (1 / 4)) (Some ''out.png'')
      = (Inr None, [Print ''Error: Could not load image from missing.png''])"
proof -
  have h: "imread example_cv2 ''missing.png'' = None"
    by (simp add: example_cv2_def)
  from hdr_night_mode_load_failure [OF h, of 0 30 "Fin (1 / 4)" "Some ''out.png''"] h
  show ?thesis by simp
qed

lemma hdr_try_body_absent:
  assumes "\<not> truthy output_path"
  shows "snd (hdr_try_body lib nan_u8 image_path N s output_path) = []"
  using assms by (simp add: hdr_try_body_def split: sum.splits)

lemma hdr_try_body_success:
  assumes "hdr_try_body lib nan_u8 image_path N s output_path = (Inr final_image, evs)"
  shows "evs = (if truthy output_path then [ImWrite (the output_path) final_image] else [])"
    and "\<not> truthy out' \<Longrightarrow> hdr_try_body lib nan_u8 image_path N s out' = (Inr final_image, [])"
    and "truthy out' \<Longrightarrow> imwrite lib (the out') final_image = Inr ok
      \<Longrightarrow> hdr_try_body lib nan_u8 image_path N s out'
        = (Inr final_image, [ImWrite (the out') final_image])"
  using assms
  by (auto simp add: hdr_try_body_def save_image_def split: sum.splits if_splits prod.splits)

lemma hdr_night_mode_success_iff:
  "hdr_night_mode lib nan_u8 image_path N s output_path = (Inr (Some final_image), evs)
    \<longleftrightarrow> hdr_try_body lib nan_u8 image_path N s output_path = (Inr final_image, evs)"
  by (cases "hdr_try_body lib nan_u8 image_path N s output_path")
    (auto simp add: hdr_night_mode_def split: sum.splits py_error.splits)

lemma hdr_night_mode_absent:
  assumes "\<not> truthy output_path"
  shows "ImWrite p im \<notin> set (snd (hdr_night_mode lib nan_u8 image_path N s output_path))"
proof -
  obtain r evs where b: "hdr_try_body lib nan_u8 image_path N s output_path = (r, evs)"
    by (cases "hdr_try_body lib nan_u8 image_path N s output_path")
  with hdr_try_body_absent [OF assms, of lib nan_u8 image_path N s] have "evs = []"
    by simp
  with b show ?thesis
    by (simp add: hdr_night_mode_def split: sum.splits py_error.splits)
qed

text \<open>
  C8: the test \<^verbatim>\<open>if output_path\<close> counts a path as supplied when it is a string that is
  not empty. Without such a path no run calls \<open>imwrite\<close>. A run that returns the final
  image has exactly one event, the write of that image to the path, when a path was
  supplied, and no event otherwise; and the same final image is returned without a path
  and with any path whose write does not raise.
\<close>

theorem hdr_night_mode_output:
  "(\<not> truthy output_path \<longrightarrow>
      (\<forall>p im. ImWrite p im \<notin> set (snd (hdr_night_mode lib nan_u8 image_path N s output_path))))
   \<and> (hdr_night_mode lib nan_u8 image_path N s output_path = (Inr (Some final_image), evs) \<longrightarrow>
        evs = (if truthy output_path then [ImWrite (the output_path) final_image] else [])
      \<and> hdr_night_mode lib nan_u8 image_path N s None = (Inr (Some final_image), [])
      \<and> (\<forall>p ok. p \<noteq> [] \<and> imwrite lib p final_image = Inr ok \<longrightarrow>
            hdr_night_mode lib nan_u8 image_path N s (Some p)
              = (Inr (Some final_image), [ImWrite p final_image])))"
proof (intro conjI impI allI)
  fix p im
  assume "\<not> truthy output_path"
  then show "ImWrite p im \<notin> set (snd (hdr_night_mode lib nan_u8 image_path N s output_path))"
    by (rule hdr_night_mode_absent)
next
  assume "hdr_night_mode lib nan_u8 image_path N s output_path = (Inr (Some final_image), evs)"
  then have b: "hdr_try_body lib nan_u8 image_path N s output_path = (Inr final_image, evs)"
    by (simp only: hdr_night_mode_success_iff)
  show "evs = (if truthy output_path then [ImWrite (the output_path) final_image] else [])"
    using b by (rule hdr_try_body_success(1))
  have "hdr_try_body lib nan_u8 image_path N s None = (Inr final_image, [])"
    using b by (rule hdr_try_body_success(2)) (simp add: truthy_def)
  then show "hdr_night_mode lib nan_u8 image_path N s None = (Inr (Some final_image), [])"
    by (simp only: hdr_night_mode_success_iff)
  fix p ok
  assume p: "p \<noteq> [] \<and> imwrite lib p final_image = Inr ok"
  have "hdr_try_body lib nan_u8 image_path N s (Some p)
      = (Inr final_image, [ImWrite (the (Some p)) final_image])"
    using b by (rule hdr_try_body_success(3)) (simp_all add: truthy_def p)
  then show "hdr_night_mode lib nan_u8 image_path N s (Some p)
      = (Inr (Some final_image), [ImWrite p final_image])"
    by (simp add: hdr_night_mode_success_iff)
qed

theorem hdr_night_mode_output_witness:
  "\<not> truthy None
    \<and> hdr_night_mode example_cv2 0 ''in.png'' 2 (Fin (1 / 4)) None
        = (Inr (Some [[[128, 255, 0], [64, 255, 0]]]), [])
    \<and> ''out.png'' \<noteq> [] \<and> imwrite example_cv2 ''out.png'' [[[128, 255, 0], [64, 255, 0]]] = Inr True
    \<and> hdr_night_mode example_cv2 0 ''in.png'' 2 (Fin (1 / 4)) (Some ''out.png'')
        = (Inr (Some [[[128, 255, 0], [64, 255, 0]]]),
           [ImWrite ''out.png'' [[[128, 255, 0], [64, 255, 0]]]])"
proof -
  have w: "''out.png'' \<noteq> [] \<and> imwrite example_cv2 ''out.png'' [[[128, 255, 0], [64, 255, 0]]] = Inr True"
    by (simp add: example_cv2_def)
  from hdr_night_mode_output [of None example_cv2 0 "''in.png''" 2 "Fin (1 / 4)"
      "[[[128, 255, 0], [64, 255, 0]]]" "[]"] hdr_night_mode_example
  have "\<forall>p ok. p \<noteq> [] \<and> imwrite example_cv2 p [[[128, 255, 0], [64, 255, 0]]] = Inr ok \<longrightarrow>
      hdr_night_mode example_cv2 0 ''in.png'' 2 (Fin (1 / 4)) (Some p)
        = (Inr (Some [[[128, 255, 0], [64, 255, 0]]]), [ImWrite p [[[128, 255, 0], [64, 255, 0]]]])"
    by blast
  with w have "hdr_night_mode example_cv2 0 ''in.png'' 2 (Fin (1 / 4)) (Some ''out.png'')
        = (Inr (Some [[[128, 255, 0], [64, 255, 0]]]),
           [ImWrite ''out.png'' [[[128, 255, 0], [64, 255, 0]]]])"
    by blast
  with w hdr_night_mode_example show ?thesis
    by (simp add: truthy_def)
qed

end
